theory Spec2Isabelle
  imports Complex_Main "HOL-Library.AList" "HOL-Library.Char_ord" "HOL-Library.List_Lexorder"
begin

section \<open>Python values\<close>

text \<open>
  A Python \<open>float\<close> is an IEEE double. Comparison of doubles is exact, so a finite double
  is represented by the rational number it denotes; \<open>-0.0\<close> and \<open>0.0\<close>, which compare
  equal, are both \<open>Finite 0\<close>. Rounding only happens inside the builtins \<open>float(...)\<close>,
  which are parameters of the model (see \<open>builtins\<close> below).
\<close>

datatype pyfloat = Finite rat | PosInf | NegInf | NaN

text \<open>
  The values a field of a record can hold: \<open>None\<close>, a \<open>str\<close>, a \<open>float\<close> or an \<open>int\<close>.
\<close>

datatype pyval = VNone | VStr string | VFloat pyfloat | VInt int

datatype error =
    RuntimeError
  | ValueError string
  | TypeError
  | KeyError string
  | OverflowError

text \<open>A \<open>dict\<close> keeps its keys in insertion order: an association list with distinct keys.\<close>

type_synonym entry = "(string \<times> pyval) list"

type_synonym batch = "entry list"

text \<open>A level is the two-element list \<open>[price, datetime]\<close> the scanner appends.\<close>

type_synonym level = "pyval \<times> pyval"

text \<open>
  What \<open>find_support_levels\<close> and \<open>find_resistance_levels\<close> return: the list of levels, or
  with \<open>global_only\<close> one level or \<open>None\<close>.
\<close>

datatype scan_result = Levels "level list" | Global "level option"

subsection \<open>Comparison\<close>

text \<open>\<open>x < y\<close> on floats: false as soon as one side is NaN.\<close>

fun fless :: "pyfloat \<Rightarrow> pyfloat \<Rightarrow> bool" where
  "fless NaN _ = False"
| "fless _ NaN = False"
| "fless (Finite a) (Finite b) = (a < b)"
| "fless (Finite a) PosInf = True"
| "fless (Finite a) NegInf = False"
| "fless PosInf _ = False"
| "fless NegInf (Finite b) = True"
| "fless NegInf PosInf = True"
| "fless NegInf NegInf = False"

text \<open>\<open>x == y\<close> on floats: NaN equals nothing, itself included.\<close>

fun feq :: "pyfloat \<Rightarrow> pyfloat \<Rightarrow> bool" where
  "feq NaN _ = False"
| "feq _ NaN = False"
| "feq a b = (a = b)"

text \<open>The number a numeric value denotes; an \<open>int\<close> is compared with a \<open>float\<close> exactly.\<close>

fun num_of :: "pyval \<Rightarrow> pyfloat option" where
  "num_of (VFloat f) = Some f"
| "num_of (VInt n) = Some (Finite (of_int n))"
| "num_of _ = None"

text \<open>
  \<open>a < b\<close>: numbers by value, strings lexicographically by code point, anything else
  raises \<open>TypeError\<close>.
\<close>

fun py_lt :: "pyval \<Rightarrow> pyval \<Rightarrow> error + bool" where
  "py_lt (VStr s) (VStr t) = Inr (s < t)"
| "py_lt a b =
     (case (num_of a, num_of b) of
        (Some x, Some y) \<Rightarrow> Inr (fless x y)
      | _ \<Rightarrow> Inl TypeError)"

text \<open>\<open>a > b\<close>, the reflected comparison.\<close>

fun py_gt :: "pyval \<Rightarrow> pyval \<Rightarrow> error + bool" where
  "py_gt (VStr s) (VStr t) = Inr (t < s)"
| "py_gt a b =
     (case (num_of a, num_of b) of
        (Some x, Some y) \<Rightarrow> Inr (fless y x)
      | _ \<Rightarrow> Inl TypeError)"

text \<open>\<open>a == b\<close> never raises: values of unrelated types are unequal.\<close>

fun py_eq :: "pyval \<Rightarrow> pyval \<Rightarrow> bool" where
  "py_eq VNone VNone = True"
| "py_eq (VStr s) (VStr t) = (s = t)"
| "py_eq a b =
     (case (num_of a, num_of b) of
        (Some x, Some y) \<Rightarrow> feq x y
      | _ \<Rightarrow> False)"

text \<open>
  \<open>[p1, d1] < [p2, d2]\<close> on lists: the first position where the elements are unequal
  decides, by \<open><\<close> on the elements there; equal lists are not less.
\<close>

fun level_lt :: "level \<Rightarrow> level \<Rightarrow> error + bool" where
  "level_lt (p1, d1) (p2, d2) =
     (if \<not> py_eq p1 p2 then py_lt p1 p2
      else if \<not> py_eq d1 d2 then py_lt d1 d2
      else Inr False)"

fun level_gt :: "level \<Rightarrow> level \<Rightarrow> error + bool" where
  "level_gt (p1, d1) (p2, d2) =
     (if \<not> py_eq p1 p2 then py_gt p1 p2
      else if \<not> py_eq d1 d2 then py_gt d1 d2
      else Inr False)"

text \<open>
  \<open>min(xs)\<close> and \<open>max(xs)\<close> on a non-empty list: the first element is the candidate, and a
  later element replaces it when it compares strictly less (greater).
\<close>

fun min_from :: "level \<Rightarrow> level list \<Rightarrow> error + level" where
  "min_from best [] = Inr best"
| "min_from best (x # xs) =
     (case level_lt x best of
        Inl e \<Rightarrow> Inl e
      | Inr b \<Rightarrow> min_from (if b then x else best) xs)"

fun max_from :: "level \<Rightarrow> level list \<Rightarrow> error + level" where
  "max_from best [] = Inr best"
| "max_from best (x # xs) =
     (case level_gt x best of
        Inl e \<Rightarrow> Inl e
      | Inr b \<Rightarrow> max_from (if b then x else best) xs)"

fun py_min :: "level list \<Rightarrow> error + level" where
  "py_min [] = Inl (ValueError ''min() arg is an empty sequence'')"
| "py_min (x # xs) = min_from x xs"

fun py_max :: "level list \<Rightarrow> error + level" where
  "py_max [] = Inl (ValueError ''max() arg is an empty sequence'')"
| "py_max (x # xs) = max_from x xs"

section \<open>The extrema scanner\<close>

text \<open>\<open>d[k]\<close> raises \<open>KeyError\<close> on a missing key.\<close>

definition getitem :: "entry \<Rightarrow> string \<Rightarrow> error + pyval" where
  "getitem e k = (case map_of e k of None \<Rightarrow> Inl (KeyError k) | Some v \<Rightarrow> Inr v)"

text \<open>\<open>processed_data[i][k] < processed_data[j][k]\<close>, operands evaluated left to right.\<close>

definition lt_at :: "batch \<Rightarrow> string \<Rightarrow> nat \<Rightarrow> nat \<Rightarrow> error + bool" where
  "lt_at ps k i j =
     (case getitem (ps ! i) k of
        Inl e \<Rightarrow> Inl e
      | Inr a \<Rightarrow> (case getitem (ps ! j) k of Inl e \<Rightarrow> Inl e | Inr b \<Rightarrow> py_lt a b))"

definition gt_at :: "batch \<Rightarrow> string \<Rightarrow> nat \<Rightarrow> nat \<Rightarrow> error + bool" where
  "gt_at ps k i j =
     (case getitem (ps ! i) k of
        Inl e \<Rightarrow> Inl e
      | Inr a \<Rightarrow> (case getitem (ps ! j) k of Inl e \<Rightarrow> Inl e | Inr b \<Rightarrow> py_gt a b))"

text \<open>\<open>a and b\<close>: the right operand is evaluated only when the left one is true.\<close>

definition and_then :: "error + bool \<Rightarrow> (error + bool) \<Rightarrow> error + bool" where
  "and_then a b = (case a of Inl e \<Rightarrow> Inl e | Inr x \<Rightarrow> if x then b else Inr False)"

text \<open>
  The condition of the \<open>if\<close> in the loop of \<open>find_support_levels\<close>, its four comparisons in
  the order of the source: \<open>i - 1\<close>, \<open>i - 2\<close>, \<open>i + 1\<close>, \<open>i + 2\<close>. The loop runs it for
  \<open>2 \<le> i < len - 2\<close> only, where all five indices are in range.
\<close>

definition support_cond :: "batch \<Rightarrow> nat \<Rightarrow> error + bool" where
  "support_cond ps i =
     and_then (lt_at ps ''low'' i (i - 1))
       (and_then (lt_at ps ''low'' i (i - 2))
         (and_then (lt_at ps ''low'' i (i + 1))
           (lt_at ps ''low'' i (i + 2))))"

definition resistance_cond :: "batch \<Rightarrow> nat \<Rightarrow> error + bool" where
  "resistance_cond ps i =
     and_then (gt_at ps ''high'' i (i - 1))
       (and_then (gt_at ps ''high'' i (i - 2))
         (and_then (gt_at ps ''high'' i (i + 1))
           (gt_at ps ''high'' i (i + 2))))"

text \<open>
  The local variables of a scan: \<open>processed_data\<close>, which the loop reads, and the list of
  levels it appends to.
\<close>

record scan_state =
  processed_data :: batch
  found_levels :: "level list"

text \<open>\<open>[processed_data[i][k], processed_data[i]["datetime"]]\<close>\<close>

definition level_at :: "batch \<Rightarrow> string \<Rightarrow> nat \<Rightarrow> error + level" where
  "level_at ps k i =
     (case getitem (ps ! i) k of
        Inl e \<Rightarrow> Inl e
      | Inr p \<Rightarrow> (case getitem (ps ! i) ''datetime'' of Inl e \<Rightarrow> Inl e | Inr d \<Rightarrow> Inr (p, d)))"

text \<open>One iteration of the loop body of \<open>find_support_levels\<close>.\<close>

definition support_step :: "nat \<Rightarrow> scan_state \<Rightarrow> error + scan_state" where
  "support_step i s =
     (case support_cond (processed_data s) i of
        Inl e \<Rightarrow> Inl e
      | Inr b \<Rightarrow>
          if b then
            (case level_at (processed_data s) ''low'' i of
               Inl e \<Rightarrow> Inl e
             | Inr l \<Rightarrow> Inr (s\<lparr>found_levels := found_levels s @ [l]\<rparr>))
          else Inr s)"

definition resistance_step :: "nat \<Rightarrow> scan_state \<Rightarrow> error + scan_state" where
  "resistance_step i s =
     (case resistance_cond (processed_data s) i of
        Inl e \<Rightarrow> Inl e
      | Inr b \<Rightarrow>
          if b then
            (case level_at (processed_data s) ''high'' i of
               Inl e \<Rightarrow> Inl e
             | Inr l \<Rightarrow> Inr (s\<lparr>found_levels := found_levels s @ [l]\<rparr>))
          else Inr s)"

text \<open>A \<open>for\<close> loop over a list of indices; an exception in the body ends it.\<close>

fun for_each :: "(nat \<Rightarrow> scan_state \<Rightarrow> error + scan_state) \<Rightarrow> nat list \<Rightarrow> scan_state
    \<Rightarrow> error + scan_state" where
  "for_each body [] s = Inr s"
| "for_each body (i # is) s =
     (case body i s of Inl e \<Rightarrow> Inl e | Inr s' \<Rightarrow> for_each body is s')"

text \<open>
  \<open>range(2, len(processed_data) - 2)\<close>: empty when the stop is not above 2, also when
  \<open>len - 2\<close> is negative, which the truncating subtraction on \<open>nat\<close> agrees with.
\<close>

definition scan_range :: "batch \<Rightarrow> nat list" where
  "scan_range ps = [2 ..< length ps - 2]"

text \<open>
  The body of \<open>find_support_levels\<close> after \<open>processed_data = self.get_processed_data()\<close>:
  the loop, which yields the final state of the local variables, and the return.
\<close>

definition support_loop :: "batch \<Rightarrow> error + scan_state" where
  "support_loop ps =
     for_each support_step (scan_range ps) \<lparr>processed_data = ps, found_levels = []\<rparr>"

definition resistance_loop :: "batch \<Rightarrow> error + scan_state" where
  "resistance_loop ps =
     for_each resistance_step (scan_range ps) \<lparr>processed_data = ps, found_levels = []\<rparr>"

definition support_scan :: "batch \<Rightarrow> bool \<Rightarrow> error + scan_result" where
  "support_scan ps global_only =
     (case support_loop ps of
        Inl e \<Rightarrow> Inl e
      | Inr s \<Rightarrow>
          if global_only then
            (if found_levels s \<noteq> [] then
               (case py_min (found_levels s) of Inl e \<Rightarrow> Inl e | Inr l \<Rightarrow> Inr (Global (Some l)))
             else Inr (Global None))
          else Inr (Levels (found_levels s)))"

definition resistance_scan :: "batch \<Rightarrow> bool \<Rightarrow> error + scan_result" where
  "resistance_scan ps global_only =
     (case resistance_loop ps of
        Inl e \<Rightarrow> Inl e
      | Inr s \<Rightarrow>
          if global_only then
            (if found_levels s \<noteq> [] then
               (case py_max (found_levels s) of Inl e \<Rightarrow> Inl e | Inr l \<Rightarrow> Inr (Global (Some l)))
             else Inr (Global None))
          else Inr (Levels (found_levels s)))"

section \<open>Fetching and normalising\<close>

text \<open>
  Python's builtins are not code of the repository; the model takes them as parameters:
  \<open>float(s)\<close> and \<open>int(s)\<close> on a string (\<open>None\<close> stands for \<open>ValueError\<close>) and \<open>float(n)\<close>
  on an \<open>int\<close> (\<open>None\<close> stands for \<open>OverflowError\<close>).
\<close>

record builtins =
  float_of_str :: "string \<Rightarrow> pyfloat option"
  int_of_str :: "string \<Rightarrow> int option"
  float_of_int :: "int \<Rightarrow> pyfloat option"

text \<open>The attributes of a \<open>getStockTimeSeries\<close> object.\<close>

record stock =
  apikey :: string
  symbol :: string
  interval :: string
  outputsize :: int

text \<open>\<open>float(value)\<close>\<close>

fun py_float :: "builtins \<Rightarrow> pyval \<Rightarrow> error + pyval" where
  "py_float py (VStr s) =
     (case float_of_str py s of
        None \<Rightarrow> Inl (ValueError ''could not convert string to float'')
      | Some f \<Rightarrow> Inr (VFloat f))"
| "py_float py (VFloat f) = Inr (VFloat f)"
| "py_float py (VInt n) =
     (case float_of_int py n of None \<Rightarrow> Inl OverflowError | Some f \<Rightarrow> Inr (VFloat f))"
| "py_float py VNone = Inl TypeError"

text \<open>\<open>int(value)\<close>: a float is truncated towards zero.\<close>

fun py_int :: "builtins \<Rightarrow> pyval \<Rightarrow> error + pyval" where
  "py_int py (VStr s) =
     (case int_of_str py s of
        None \<Rightarrow> Inl (ValueError ''invalid literal for int() with base 10'')
      | Some n \<Rightarrow> Inr (VInt n))"
| "py_int py (VInt n) = Inr (VInt n)"
| "py_int py (VFloat (Finite r)) = Inr (VInt (if 0 \<le> r then \<lfloor>r\<rfloor> else \<lceil>r\<rceil>))"
| "py_int py (VFloat NaN) = Inl (ValueError ''cannot convert float NaN to integer'')"
| "py_int py (VFloat _) = Inl OverflowError"
| "py_int py VNone = Inl TypeError"

fun is_ValueError :: "error \<Rightarrow> bool" where
  "is_ValueError (ValueError _) = True"
| "is_ValueError _ = False"

text \<open>
  The \<open>try\<close> block in the inner loop of \<open>_convert_prices_to_numeric\<close>; the result is the
  value \<open>entry[key]\<close> holds afterwards. Only \<open>ValueError\<close> is caught.
\<close>

definition coerce :: "builtins \<Rightarrow> pyval \<Rightarrow> error + pyval" where
  "coerce py v =
     (case py_float py v of
        Inr x \<Rightarrow> Inr x
      | Inl e \<Rightarrow>
          if is_ValueError e then
            (case py_int py v of
               Inr y \<Rightarrow> Inr y
             | Inl e' \<Rightarrow> if is_ValueError e' then Inr v else Inl e')
          else Inl e)"

text \<open>
  \<open>for key, value in entry.items()\<close>: the items in insertion order, each value replaced
  in place. The result is the entry as the loop leaves it and the exception that ended
  it, if any; the items after the failing one are then untouched.
\<close>

fun convert_items :: "builtins \<Rightarrow> entry \<Rightarrow> entry \<times> error option" where
  "convert_items py [] = ([], None)"
| "convert_items py ((k, v) # kvs) =
     (if k \<noteq> ''datetime'' then
        (case coerce py v of
           Inl e \<Rightarrow> ((k, v) # kvs, Some e)
         | Inr v' \<Rightarrow> (case convert_items py kvs of (kvs', r) \<Rightarrow> ((k, v') # kvs', r)))
      else (case convert_items py kvs of (kvs', r) \<Rightarrow> ((k, v) # kvs', r)))"

text \<open>
  The body of the outer loop: the two assignments (an existing key keeps its position,
  a new one goes to the end), then the inner loop.
\<close>

definition convert_entry :: "builtins \<Rightarrow> string \<Rightarrow> string \<Rightarrow> entry \<Rightarrow> entry \<times> error option" where
  "convert_entry py smb execution_timestamp e =
     convert_items py
       (AList.update ''ticker'' (VStr smb)
         (AList.update ''execution_timestamp'' (VStr execution_timestamp) e))"

fun convert_entries :: "builtins \<Rightarrow> string \<Rightarrow> string \<Rightarrow> batch \<Rightarrow> batch \<times> error option" where
  "convert_entries py smb ts [] = ([], None)"
| "convert_entries py smb ts (e # es) =
     (case convert_entry py smb ts e of
        (e', Some err) \<Rightarrow> (e' # es, Some err)
      | (e', None) \<Rightarrow> (case convert_entries py smb ts es of (es', r) \<Rightarrow> (e' # es', r)))"

text \<open>
  \<open>_convert_prices_to_numeric\<close>: \<open>now\<close> is what \<open>datetime.now().isoformat()\<close> returns. The
  list is changed in place, so the result is the list afterwards, which is also the
  return value, and the exception raised, if any.
\<close>

definition convert_prices_to_numeric :: "builtins \<Rightarrow> stock \<Rightarrow> string \<Rightarrow> batch
    \<Rightarrow> batch \<times> error option" where
  "convert_prices_to_numeric py self now raw_data = convert_entries py (symbol self) now raw_data"

text \<open>\<open>value == "" or value is None\<close>\<close>

definition is_empty_value :: "pyval \<Rightarrow> bool" where
  "is_empty_value v = (py_eq v (VStr []) \<or> v = VNone)"

text \<open>\<open>_check_for_empty_data\<close>: \<open>None\<close> when it returns, the exception otherwise.\<close>

fun check_for_empty_data :: "batch \<Rightarrow> error option" where
  "check_for_empty_data [] = None"
| "check_for_empty_data (e # es) =
     (if list_ex (\<lambda>(k, v). is_empty_value v) e
      then Some (ValueError ''Empty data found in the dataset.'')
      else check_for_empty_data es)"

text \<open>
  What the Twelve Data client does when \<open>fetch_data\<close> calls it: it raises, or
  \<open>ts.as_json()\<close> returns a list of records (or \<open>None\<close>).
\<close>

datatype api_outcome = ApiRaises | ApiReturns "batch option"

text \<open>\<open>fetch_data\<close>: every exception of the client becomes a \<open>RuntimeError\<close>.\<close>

definition fetch_data :: "api_outcome \<Rightarrow> error + batch option" where
  "fetch_data api = (case api of ApiRaises \<Rightarrow> Inl RuntimeError | ApiReturns r \<Rightarrow> Inr r)"

text \<open>
  \<open>get_processed_data\<close>. The first component is what the method returns or raises, the
  second the fetched list as the call leaves it (\<open>None\<close> when there is no list).
\<close>

definition get_processed_data :: "builtins \<Rightarrow> stock \<Rightarrow> string \<Rightarrow> api_outcome
    \<Rightarrow> (error + batch) \<times> batch option" where
  "get_processed_data py self now api =
     (case fetch_data api of
        Inl e \<Rightarrow> (Inl e, None)
      | Inr None \<Rightarrow> (Inl (ValueError ''No data fetched from the API.''), None)
      | Inr (Some raw_data) \<Rightarrow>
          if length raw_data = 0
          then (Inl (ValueError ''No data fetched from the API.''), Some raw_data)
          else
            (case check_for_empty_data raw_data of
               Some e \<Rightarrow> (Inl e, Some raw_data)
             | None \<Rightarrow>
                 (case convert_prices_to_numeric py self now raw_data of
                    (raw', Some e) \<Rightarrow> (Inl e, Some raw')
                  | (raw', None) \<Rightarrow> (Inr raw', Some raw'))))"

text \<open>The two methods: fetch and normalise, then scan.\<close>

definition find_support_levels :: "builtins \<Rightarrow> stock \<Rightarrow> string \<Rightarrow> api_outcome
    \<Rightarrow> bool \<Rightarrow> error + scan_result" where
  "find_support_levels py self now api global_only =
     (case fst (get_processed_data py self now api) of
        Inl e \<Rightarrow> Inl e
      | Inr processed \<Rightarrow> support_scan processed global_only)"

definition find_resistance_levels :: "builtins \<Rightarrow> stock \<Rightarrow> string \<Rightarrow> api_outcome
    \<Rightarrow> bool \<Rightarrow> error + scan_result" where
  "find_resistance_levels py self now api global_only =
     (case fst (get_processed_data py self now api) of
        Inl e \<Rightarrow> Inl e
      | Inr processed \<Rightarrow> resistance_scan processed global_only)"

section \<open>The series of the data model\<close>

text \<open>
  The data model of the scanner: a series of price points, each with a numeric \<open>low\<close> and
  \<open>high\<close> and a timestamp string under \<open>datetime\<close>. The properties of the scanner are
  stated for such series; on other lists of records a comparison or a lookup in the loop
  raises.
\<close>

definition wf_point :: "entry \<Rightarrow> bool" where
  "wf_point e =
     ((case map_of e ''low'' of Some (VFloat _) \<Rightarrow> True | _ \<Rightarrow> False) \<and>
      (case map_of e ''high'' of Some (VFloat _) \<Rightarrow> True | _ \<Rightarrow> False) \<and>
      (case map_of e ''datetime'' of Some (VStr _) \<Rightarrow> True | _ \<Rightarrow> False))"

definition well_formed_series :: "batch \<Rightarrow> bool" where
  "well_formed_series ps = list_all wf_point ps"

text \<open>The low, the high and the timestamp of a price point.\<close>

definition low_of :: "entry \<Rightarrow> pyfloat" where
  "low_of e = (case map_of e ''low'' of Some (VFloat f) \<Rightarrow> f | _ \<Rightarrow> NaN)"

definition high_of :: "entry \<Rightarrow> pyfloat" where
  "high_of e = (case map_of e ''high'' of Some (VFloat f) \<Rightarrow> f | _ \<Rightarrow> NaN)"

definition time_of :: "entry \<Rightarrow> string" where
  "time_of e = (case map_of e ''datetime'' of Some (VStr s) \<Rightarrow> s | _ \<Rightarrow> [])"

text \<open>
  The support rule as the specification words it, on the list of lows: the low at \<open>i\<close>
  is strictly below the lows at \<open>i - 2\<close>, \<open>i - 1\<close>, \<open>i + 1\<close> and \<open>i + 2\<close>; the resistance
  rule is its mirror on the highs. The candidates are the indices \<open>2 \<le> i \<le> length - 3\<close>,
  in ascending order.
\<close>

definition is_support :: "pyfloat list \<Rightarrow> nat \<Rightarrow> bool" where
  "is_support lows i =
     (fless (lows ! i) (lows ! (i - 2)) \<and> fless (lows ! i) (lows ! (i - 1)) \<and>
      fless (lows ! i) (lows ! (i + 1)) \<and> fless (lows ! i) (lows ! (i + 2)))"

definition is_resistance :: "pyfloat list \<Rightarrow> nat \<Rightarrow> bool" where
  "is_resistance highs i =
     (fless (highs ! (i - 2)) (highs ! i) \<and> fless (highs ! (i - 1)) (highs ! i) \<and>
      fless (highs ! (i + 1)) (highs ! i) \<and> fless (highs ! (i + 2)) (highs ! i))"

definition support_points :: "pyfloat list \<Rightarrow> nat list" where
  "support_points lows = filter (is_support lows) [2 ..< length lows - 2]"

definition resistance_points :: "pyfloat list \<Rightarrow> nat list" where
  "resistance_points highs = filter (is_resistance highs) [2 ..< length highs - 2]"

text \<open>The \<open>(price, timestamp)\<close> pair of the point at index \<open>i\<close>.\<close>

definition low_level :: "batch \<Rightarrow> nat \<Rightarrow> level" where
  "low_level ps i = (VFloat (low_of (ps ! i)), VStr (time_of (ps ! i)))"

definition high_level :: "batch \<Rightarrow> nat \<Rightarrow> level" where
  "high_level ps i = (VFloat (high_of (ps ! i)), VStr (time_of (ps ! i)))"

text \<open>
  The lexicographic order on \<open>(price, timestamp string)\<close> pairs: the price decides, and
  the timestamp does between equal prices.
\<close>

fun lex_le :: "level \<Rightarrow> level \<Rightarrow> bool" where
  "lex_le (VFloat f, VStr d) (VFloat g, VStr e) = (fless f g \<or> (f = g \<and> d \<le> e))"
| "lex_le _ _ = False"

fun lex_lt :: "level \<Rightarrow> level \<Rightarrow> bool" where
  "lex_lt (VFloat f, VStr d) (VFloat g, VStr e) = (fless f g \<or> (f = g \<and> d < e))"
| "lex_lt _ _ = False"

text \<open>A level of a well-formed series: a price that is a number, a timestamp string.\<close>

fun wf_level :: "level \<Rightarrow> bool" where
  "wf_level (VFloat f, VStr d) = (f \<noteq> NaN)"
| "wf_level _ = False"

subsection \<open>Sample data\<close>

text \<open>
  A processed record with the given timestamp, high and low, and a series of seven of
  them with the lows 5, 4, 3, 2, 3, 4, 5 and the highs 1, 2, 3, 4, 3, 2, 1.
\<close>

definition mk_point :: "string \<Rightarrow> rat \<Rightarrow> rat \<Rightarrow> entry" where
  "mk_point d h l =
     [(''datetime'', VStr d), (''open'', VFloat (Finite l)), (''high'', VFloat (Finite h)),
      (''low'', VFloat (Finite l)), (''close'', VFloat (Finite h)),
      (''execution_timestamp'', VStr ''2024-01-01T00:00:00''), (''ticker'', VStr ''ABC'')]"

definition example_series :: batch where
  "example_series =
     [mk_point ''d0'' 1 5, mk_point ''d1'' 2 4, mk_point ''d2'' 3 3, mk_point ''d3'' 4 2,
      mk_point ''d4'' 3 3, mk_point ''d5'' 2 4, mk_point ''d6'' 1 5]"

text \<open>
  Eight records with a local minimum of the lows, and a local maximum of the highs, at
  the indices 2 and 5.
\<close>

definition two_dips :: batch where
  "two_dips =
     [mk_point ''d0'' 1 5, mk_point ''d1'' 2 4, mk_point ''d2'' 5 1, mk_point ''d3'' 2 4,
      mk_point ''d4'' 1 3, mk_point ''d5'' 6 2, mk_point ''d6'' 2 6, mk_point ''d7'' 1 7]"

text \<open>
  Eight records, newest first, whose lows have two local minima with the same price 1
  and whose highs have two local maxima with the same price 5, at the indices 2 and 5.
\<close>

definition tied_series :: batch where
  "tied_series =
     [mk_point ''t7'' 1 5, mk_point ''t6'' 2 4, mk_point ''t5'' 5 1, mk_point ''t4'' 2 4,
      mk_point ''t3'' 1 3, mk_point ''t2'' 5 1, mk_point ''t1'' 2 6, mk_point ''t0'' 1 7]"

section \<open>The normalised batch\<close>

text \<open>
  The coercion as the specification words it: float first, then integer, otherwise the
  value as it is.
\<close>

definition numeric_or_same :: "builtins \<Rightarrow> pyval \<Rightarrow> pyval" where
  "numeric_or_same py v =
     (case v of
        VStr s \<Rightarrow>
          (case float_of_str py s of
             Some f \<Rightarrow> VFloat f
           | None \<Rightarrow> (case int_of_str py s of Some n \<Rightarrow> VInt n | None \<Rightarrow> VStr s))
      | VInt n \<Rightarrow> (case float_of_int py n of Some f \<Rightarrow> VFloat f | None \<Rightarrow> VInt n)
      | _ \<Rightarrow> v)"

text \<open>
  A record after normalisation, in the specification's words: the retrieval timestamp
  and the symbol attached, then every field but \<open>datetime\<close> coerced.
\<close>

definition normalised_entry :: "builtins \<Rightarrow> string \<Rightarrow> string \<Rightarrow> entry \<Rightarrow> entry" where
  "normalised_entry py smb ts e =
     map (\<lambda>(k, v). (k, if k = ''datetime'' then v else numeric_or_same py v))
       (AList.update ''ticker'' (VStr smb) (AList.update ''execution_timestamp'' (VStr ts) e))"

text \<open>
  The values \<open>float(...)\<close> takes without a \<open>TypeError\<close> or an \<open>OverflowError\<close>, and the
  batches that pass the validation and hold only such values outside \<open>datetime\<close>.
\<close>

definition coercible :: "builtins \<Rightarrow> pyval \<Rightarrow> bool" where
  "coercible py v =
     (case v of VNone \<Rightarrow> False | VInt n \<Rightarrow> float_of_int py n \<noteq> None | _ \<Rightarrow> True)"

definition entry_ok :: "builtins \<Rightarrow> entry \<Rightarrow> bool" where
  "entry_ok py e =
     list_all (\<lambda>(k, v). \<not> is_empty_value v \<and> (k \<noteq> ''datetime'' \<longrightarrow> coercible py v)) e"

definition batch_ok :: "builtins \<Rightarrow> batch \<Rightarrow> bool" where
  "batch_ok py raw = (raw \<noteq> [] \<and> list_all (entry_ok py) raw)"

text \<open>
  A sample interpretation of the builtins: a non-empty string of ASCII digits is the
  number it spells, every other string is rejected, and every \<open>int\<close> has a float.
\<close>

definition is_digit :: "char \<Rightarrow> bool" where
  "is_digit c = (CHR ''0'' \<le> c \<and> c \<le> CHR ''9'')"

fun digits_value :: "nat \<Rightarrow> string \<Rightarrow> nat option" where
  "digits_value acc [] = Some acc"
| "digits_value acc (c # cs) =
     (if is_digit c then digits_value (10 * acc + (of_char c - 48)) cs else None)"

definition sample_builtins :: builtins where
  "sample_builtins =
     \<lparr>float_of_str = (\<lambda>s. if s = [] then None
                          else map_option (\<lambda>n. Finite (of_nat n)) (digits_value 0 s)),
      int_of_str = (\<lambda>s. if s = [] then None else map_option int (digits_value 0 s)),
      float_of_int = (\<lambda>n. Some (Finite (of_int n)))\<rparr>"

definition sample_stock :: stock where
  "sample_stock = \<lparr>apikey = ''key'', symbol = ''ABC'', interval = ''1day'', outputsize = 5\<rparr>"

definition raw_point :: "string \<Rightarrow> string \<Rightarrow> string \<Rightarrow> entry" where
  "raw_point d h l =
     [(''datetime'', VStr d), (''open'', VStr l), (''high'', VStr h), (''low'', VStr l),
      (''close'', VStr h), (''volume'', VStr ''1000'')]"

text \<open>
  A fetched batch of two records: the first is complete, the \<open>close\<close> of the second is
  the empty string.
\<close>

definition bad_batch :: batch where
  "bad_batch =
     [raw_point ''2024-01-02'' ''12'' ''10'',
      [(''datetime'', VStr ''2024-01-01''), (''open'', VStr ''10''), (''high'', VStr ''11''),
       (''low'', VStr ''9''), (''close'', VStr '''')]]"

text \<open>
  A fetched batch of two complete records, a stock whose symbol is a string of digits,
  and a retrieval time.
\<close>

definition good_batch :: batch where
  "good_batch = [raw_point ''2024-01-02'' ''12'' ''10'', raw_point ''2024-01-01'' ''11'' ''9'']"

definition digit_stock :: stock where
  "digit_stock = \<lparr>apikey = ''key'', symbol = ''123'', interval = ''1day'', outputsize = 2\<rparr>"

section \<open>From the normaliser to the scanner\<close>

text \<open>
  A well-formed fetched batch: every record has a \<open>low\<close> and a \<open>high\<close> that is a number or
  a string \<open>float\<close> parses, and a string under \<open>datetime\<close>.
\<close>

definition numeric_raw :: "builtins \<Rightarrow> pyval \<Rightarrow> bool" where
  "numeric_raw py v =
     (case v of
        VStr s \<Rightarrow> float_of_str py s \<noteq> None
      | VFloat f \<Rightarrow> True
      | VInt n \<Rightarrow> float_of_int py n \<noteq> None
      | VNone \<Rightarrow> False)"

definition wf_raw_point :: "builtins \<Rightarrow> entry \<Rightarrow> bool" where
  "wf_raw_point py e =
     ((case map_of e ''low'' of Some v \<Rightarrow> numeric_raw py v | None \<Rightarrow> False) \<and>
      (case map_of e ''high'' of Some v \<Rightarrow> numeric_raw py v | None \<Rightarrow> False) \<and>
      (case map_of e ''datetime'' of Some (VStr _) \<Rightarrow> True | _ \<Rightarrow> False))"

definition well_formed_batch :: "builtins \<Rightarrow> batch \<Rightarrow> bool" where
  "well_formed_batch py raw = list_all (wf_raw_point py) raw"

text \<open>
  Seven fetched records whose lows are 5, 4, 3, 2, 3, 4, 5 and whose highs are
  1, 2, 3, 4, 3, 2, 1.
\<close>

definition fetched_seven :: batch where
  "fetched_seven =
     [raw_point ''d6'' ''1'' ''5'', raw_point ''d5'' ''2'' ''4'', raw_point ''d4'' ''3'' ''3'',
      raw_point ''d3'' ''4'' ''2'', raw_point ''d2'' ''3'' ''3'', raw_point ''d1'' ''2'' ''4'',
      raw_point ''d0'' ''1'' ''5'']"

text \<open>The sample stock asked for with another key and interval.\<close>

definition other_stock :: stock where
  "other_stock = \<lparr>apikey = ''other key'', symbol = ''ABC'', interval = ''1week'', outputsize = 7\<rparr>"

section \<open>Properties of the scanner\<close>

subsection \<open>Order of floats\<close>

lemma fless_asym: "fless a b \<Longrightarrow> \<not> fless b a"
  by (cases a; cases b) auto

lemma fless_trans: "fless a b \<Longrightarrow> fless b c \<Longrightarrow> fless a c"
  by (cases a; cases b; cases c) auto

lemma fless_not_nan: "fless a b \<Longrightarrow> a \<noteq> NaN \<and> b \<noteq> NaN"
  by (cases a; cases b) auto

lemma fless_total: "a \<noteq> NaN \<Longrightarrow> b \<noteq> NaN \<Longrightarrow> fless a b \<or> a = b \<or> fless b a"
  by (cases a; cases b) auto

lemma feq_iff: "a \<noteq> NaN \<Longrightarrow> feq a b = (a = b)"
  by (cases a; cases b) auto

subsection \<open>The loop on a series of the data model\<close>

lemma wf_point_low: "wf_point e \<Longrightarrow> map_of e ''low'' = Some (VFloat (low_of e))"
  by (auto simp: wf_point_def low_of_def split: option.splits pyval.splits)

lemma wf_point_high: "wf_point e \<Longrightarrow> map_of e ''high'' = Some (VFloat (high_of e))"
  by (auto simp: wf_point_def high_of_def split: option.splits pyval.splits)

lemma wf_point_time: "wf_point e \<Longrightarrow> map_of e ''datetime'' = Some (VStr (time_of e))"
  by (auto simp: wf_point_def time_of_def split: option.splits pyval.splits)

lemma wf_nth: "well_formed_series ps \<Longrightarrow> i < length ps \<Longrightarrow> wf_point (ps ! i)"
  by (simp add: well_formed_series_def list_all_length)

lemma lt_at_wf:
  "well_formed_series ps \<Longrightarrow> i < length ps \<Longrightarrow> j < length ps \<Longrightarrow>
   lt_at ps ''low'' i j = Inr (fless (low_of (ps ! i)) (low_of (ps ! j)))"
  by (simp add: lt_at_def getitem_def wf_point_low wf_nth)

lemma gt_at_wf:
  "well_formed_series ps \<Longrightarrow> i < length ps \<Longrightarrow> j < length ps \<Longrightarrow>
   gt_at ps ''high'' i j = Inr (fless (high_of (ps ! j)) (high_of (ps ! i)))"
  by (simp add: gt_at_def getitem_def wf_point_high wf_nth)

lemma support_cond_wf:
  assumes "well_formed_series ps" "2 \<le> i" "i + 2 < length ps"
  shows "support_cond ps i = Inr (is_support (map low_of ps) i)"
proof -
  have b: "i < length ps" "i - 1 < length ps" "i - 2 < length ps" "i + 1 < length ps"
    using assms by auto
  show ?thesis
    using assms b
    by (auto simp: support_cond_def and_then_def lt_at_wf is_support_def)
qed

lemma resistance_cond_wf:
  assumes "well_formed_series ps" "2 \<le> i" "i + 2 < length ps"
  shows "resistance_cond ps i = Inr (is_resistance (map high_of ps) i)"
proof -
  have b: "i < length ps" "i - 1 < length ps" "i - 2 < length ps" "i + 1 < length ps"
    using assms by auto
  show ?thesis
    using assms b
    by (auto simp: resistance_cond_def and_then_def gt_at_wf is_resistance_def)
qed

lemma level_at_low_wf:
  "well_formed_series ps \<Longrightarrow> i < length ps \<Longrightarrow>
   level_at ps ''low'' i = Inr (VFloat (low_of (ps ! i)), VStr (time_of (ps ! i)))"
  by (simp add: level_at_def getitem_def wf_point_low wf_point_time wf_nth)

lemma level_at_high_wf:
  "well_formed_series ps \<Longrightarrow> i < length ps \<Longrightarrow>
   level_at ps ''high'' i = Inr (VFloat (high_of (ps ! i)), VStr (time_of (ps ! i)))"
  by (simp add: level_at_def getitem_def wf_point_high wf_point_time wf_nth)

lemma for_each_support_wf:
  assumes "well_formed_series ps" "\<forall>i\<in>set js. 2 \<le> i \<and> i + 2 < length ps"
  shows "for_each support_step js \<lparr>processed_data = ps, found_levels = acc\<rparr> =
         Inr \<lparr>processed_data = ps,
              found_levels = acc @ map (low_level ps) (filter (is_support (map low_of ps)) js)\<rparr>"
  using assms(2)
proof (induction js arbitrary: acc)
  case Nil
  then show ?case by simp
next
  case (Cons j js)
  then have j: "2 \<le> j" "j + 2 < length ps" by auto
  then have jl: "j < length ps" by simp
  show ?case
    using Cons assms(1) j jl
    by (simp add: support_step_def support_cond_wf level_at_low_wf low_level_def)
qed

lemma for_each_resistance_wf:
  assumes "well_formed_series ps" "\<forall>i\<in>set js. 2 \<le> i \<and> i + 2 < length ps"
  shows "for_each resistance_step js \<lparr>processed_data = ps, found_levels = acc\<rparr> =
         Inr \<lparr>processed_data = ps,
              found_levels = acc @ map (high_level ps) (filter (is_resistance (map high_of ps)) js)\<rparr>"
  using assms(2)
proof (induction js arbitrary: acc)
  case Nil
  then show ?case by simp
next
  case (Cons j js)
  then have j: "2 \<le> j" "j + 2 < length ps" by auto
  then have jl: "j < length ps" by simp
  show ?case
    using Cons assms(1) j jl
    by (simp add: resistance_step_def resistance_cond_wf level_at_high_wf high_level_def)
qed

lemma scan_range_bounds: "i \<in> set (scan_range ps) \<Longrightarrow> 2 \<le> i \<and> i + 2 < length ps"
  by (auto simp: scan_range_def)

lemma support_loop_wf:
  "well_formed_series ps \<Longrightarrow>
   support_loop ps = Inr \<lparr>processed_data = ps,
     found_levels = map (low_level ps) (support_points (map low_of ps))\<rparr>"
  using for_each_support_wf [of ps "scan_range ps" "[]"] scan_range_bounds [of _ ps]
  by (simp add: support_loop_def support_points_def scan_range_def)

lemma resistance_loop_wf:
  "well_formed_series ps \<Longrightarrow>
   resistance_loop ps = Inr \<lparr>processed_data = ps,
     found_levels = map (high_level ps) (resistance_points (map high_of ps))\<rparr>"
  using for_each_resistance_wf [of ps "scan_range ps" "[]"] scan_range_bounds [of _ ps]
  by (simp add: resistance_loop_def resistance_points_def scan_range_def)


lemma wf_example: "well_formed_series example_series"
  by (simp add: well_formed_series_def example_series_def wf_point_def mk_point_def)

lemma support_scan_all_wf:
  "well_formed_series ps \<Longrightarrow>
   support_scan ps False = Inr (Levels (map (low_level ps) (support_points (map low_of ps))))"
  by (simp add: support_scan_def support_loop_wf)

lemma resistance_scan_all_wf:
  "well_formed_series ps \<Longrightarrow>
   resistance_scan ps False = Inr (Levels (map (high_level ps) (resistance_points (map high_of ps))))"
  by (simp add: resistance_scan_def resistance_loop_wf)

text \<open>
  Claim C1. On a series of the data model, the condition of the loop of
  \<open>find_support_levels\<close> at an index \<open>2 \<le> i \<le> n - 3\<close> is true exactly when the low at \<open>i\<close>
  is strictly below the lows at \<open>i - 2\<close>, \<open>i - 1\<close>, \<open>i + 1\<close> and \<open>i + 2\<close>; without
  \<open>global_only\<close> the scan returns the (price, timestamp) pairs of exactly those indices, in
  ascending order; and the lows 5, 4, 3, 2, 3, 4, 5 give the single level of index 3,
  with price 2.
\<close>

theorem support_rule:
  assumes "well_formed_series ps"
  shows "(\<forall>i. 2 \<le> i \<and> i + 3 \<le> length ps \<longrightarrow>
            support_cond ps i = Inr (is_support (map low_of ps) i)) \<and>
         support_scan ps False =
           Inr (Levels (map (low_level ps) (support_points (map low_of ps)))) \<and>
         (map low_of ps = map Finite [5, 4, 3, 2, 3, 4, 5] \<longrightarrow>
            support_scan ps False = Inr (Levels [(VFloat (Finite 2), VStr (time_of (ps ! 3)))]))"
proof -
  have a: "\<forall>i. 2 \<le> i \<and> i + 3 \<le> length ps \<longrightarrow>
            support_cond ps i = Inr (is_support (map low_of ps) i)"
    using assms by (simp add: support_cond_wf)
  have b: "support_scan ps False =
           Inr (Levels (map (low_level ps) (support_points (map low_of ps))))"
    using assms by (rule support_scan_all_wf)
  have c: "support_scan ps False = Inr (Levels [(VFloat (Finite 2), VStr (time_of (ps ! 3)))])"
    if h: "map low_of ps = map Finite [5, 4, 3, 2, 3, 4, 5]"
  proof -
    have "support_points (map low_of ps) = [3]"
      unfolding h by (simp add: support_points_def is_support_def upt_rec)
    moreover have "low_of (ps ! 3) = Finite 2"
    proof -
      have "length (map low_of ps) = 7" unfolding h by simp
      then have "map low_of ps ! 3 = low_of (ps ! 3)" by simp
      then show ?thesis unfolding h by simp
    qed
    ultimately show ?thesis using b by (simp add: low_level_def)
  qed
  show ?thesis using a b c by blast
qed

theorem support_rule_witness:
  "well_formed_series example_series \<and>
   support_cond example_series 3 = Inr True \<and>
   support_cond example_series 2 = Inr False \<and>
   support_scan example_series False = Inr (Levels [(VFloat (Finite 2), VStr ''d3'')])"
proof -
  have wf: "well_formed_series example_series" by (rule wf_example)
  have lows: "map low_of example_series = map Finite [5, 4, 3, 2, 3, 4, 5]"
    by (simp add: example_series_def mk_point_def low_of_def)
  have t: "time_of (example_series ! 3) = ''d3''"
    by (simp add: example_series_def mk_point_def time_of_def)
  have len: "length example_series = 7" by (simp add: example_series_def)
  note r = support_rule [OF wf]
  have "support_scan example_series False = Inr (Levels [(VFloat (Finite 2), VStr ''d3'')])"
    using r [THEN conjunct2, THEN conjunct2] lows t by simp
  moreover have "support_cond example_series 3 = Inr True"
    using r len unfolding lows by (simp add: is_support_def)
  moreover have "support_cond example_series 2 = Inr False"
    using r len unfolding lows by (simp add: is_support_def)
  ultimately show ?thesis using wf by simp
qed

text \<open>
  Claim C2. The resistance rule is the mirror of the support rule: on a series of the
  data model the condition of the loop of \<open>find_resistance_levels\<close> at an index
  \<open>2 \<le> i \<le> n - 3\<close> is true exactly when the high at \<open>i\<close> is strictly above the highs at
  \<open>i - 2\<close>, \<open>i - 1\<close>, \<open>i + 1\<close> and \<open>i + 2\<close>; without \<open>global_only\<close> the scan returns the pairs
  of exactly those indices in ascending order; and the highs 1, 2, 3, 4, 3, 2, 1 give the
  single level of index 3, with price 4.
\<close>

theorem resistance_rule:
  assumes "well_formed_series ps"
  shows "(\<forall>i. 2 \<le> i \<and> i + 3 \<le> length ps \<longrightarrow>
            resistance_cond ps i = Inr (is_resistance (map high_of ps) i)) \<and>
         resistance_scan ps False =
           Inr (Levels (map (high_level ps) (resistance_points (map high_of ps)))) \<and>
         (map high_of ps = map Finite [1, 2, 3, 4, 3, 2, 1] \<longrightarrow>
            resistance_scan ps False = Inr (Levels [(VFloat (Finite 4), VStr (time_of (ps ! 3)))]))"
proof -
  have a: "\<forall>i. 2 \<le> i \<and> i + 3 \<le> length ps \<longrightarrow>
            resistance_cond ps i = Inr (is_resistance (map high_of ps) i)"
    using assms by (simp add: resistance_cond_wf)
  have b: "resistance_scan ps False =
           Inr (Levels (map (high_level ps) (resistance_points (map high_of ps))))"
    using assms by (rule resistance_scan_all_wf)
  have c: "resistance_scan ps False = Inr (Levels [(VFloat (Finite 4), VStr (time_of (ps ! 3)))])"
    if h: "map high_of ps = map Finite [1, 2, 3, 4, 3, 2, 1]"
  proof -
    have "resistance_points (map high_of ps) = [3]"
      unfolding h by (simp add: resistance_points_def is_resistance_def upt_rec)
    moreover have "high_of (ps ! 3) = Finite 4"
    proof -
      have "length (map high_of ps) = 7" unfolding h by simp
      then have "map high_of ps ! 3 = high_of (ps ! 3)" by simp
      then show ?thesis unfolding h by simp
    qed
    ultimately show ?thesis using b by (simp add: high_level_def)
  qed
  show ?thesis using a b c by blast
qed

theorem resistance_rule_witness:
  "well_formed_series example_series \<and>
   resistance_cond example_series 3 = Inr True \<and>
   resistance_cond example_series 4 = Inr False \<and>
   resistance_scan example_series False = Inr (Levels [(VFloat (Finite 4), VStr ''d3'')])"
proof -
  have wf: "well_formed_series example_series" by (rule wf_example)
  have highs: "map high_of example_series = map Finite [1, 2, 3, 4, 3, 2, 1]"
    by (simp add: example_series_def mk_point_def high_of_def)
  have t: "time_of (example_series ! 3) = ''d3''"
    by (simp add: example_series_def mk_point_def time_of_def)
  have len: "length example_series = 7" by (simp add: example_series_def)
  note r = resistance_rule [OF wf]
  have "resistance_scan example_series False = Inr (Levels [(VFloat (Finite 4), VStr ''d3'')])"
    using r [THEN conjunct2, THEN conjunct2] highs t by simp
  moreover have "resistance_cond example_series 3 = Inr True"
    using r len unfolding highs by (simp add: is_resistance_def)
  moreover have "resistance_cond example_series 4 = Inr False"
    using r len unfolding highs by (simp add: is_resistance_def)
  ultimately show ?thesis using wf by simp
qed

subsection \<open>Short series\<close>

lemma scan_range_short: "length ps < 5 \<Longrightarrow> scan_range ps = []"
  by (simp add: scan_range_def)

text \<open>
  Claim C4. On a list of fewer than five records, whatever they hold, both scans return
  the empty list without \<open>global_only\<close> and \<open>None\<close> with it; neither raises.
\<close>

theorem short_series_no_levels:
  assumes "length ps < 5"
  shows "support_scan ps False = Inr (Levels []) \<and>
         support_scan ps True = Inr (Global None) \<and>
         resistance_scan ps False = Inr (Levels []) \<and>
         resistance_scan ps True = Inr (Global None)"
  using assms
  by (simp add: support_scan_def resistance_scan_def support_loop_def resistance_loop_def
      scan_range_short)

theorem short_series_no_levels_witness:
  "length (take 4 example_series) < 5 \<and>
   support_scan (take 4 example_series) False = Inr (Levels []) \<and>
   support_scan (take 4 example_series) True = Inr (Global None) \<and>
   resistance_scan (take 4 example_series) False = Inr (Levels []) \<and>
   resistance_scan (take 4 example_series) True = Inr (Global None)"
proof -
  have h: "length (take 4 example_series) < 5" by (simp add: example_series_def)
  show ?thesis using h short_series_no_levels [OF h] by simp
qed

subsection \<open>Adjacent extrema\<close>

lemma py_lt_asym: "py_lt a b = Inr True \<Longrightarrow> py_lt b a \<noteq> Inr True"
  by (cases a; cases b) (auto dest: fless_asym)

lemma py_gt_asym: "py_gt a b = Inr True \<Longrightarrow> py_gt b a \<noteq> Inr True"
  by (cases a; cases b) (auto dest: fless_asym)

lemma lt_at_asym: "lt_at ps k i j = Inr True \<Longrightarrow> lt_at ps k j i \<noteq> Inr True"
  by (auto simp: lt_at_def dest: py_lt_asym split: sum.splits)

lemma gt_at_asym: "gt_at ps k i j = Inr True \<Longrightarrow> gt_at ps k j i \<noteq> Inr True"
  by (auto simp: gt_at_def dest: py_gt_asym split: sum.splits)

lemma and_then_True: "and_then a b = Inr True \<longleftrightarrow> a = Inr True \<and> b = Inr True"
  by (auto simp: and_then_def split: sum.splits)

lemma support_cond_True:
  "support_cond ps i = Inr True \<longleftrightarrow>
     lt_at ps ''low'' i (i - 1) = Inr True \<and> lt_at ps ''low'' i (i - 2) = Inr True \<and>
     lt_at ps ''low'' i (i + 1) = Inr True \<and> lt_at ps ''low'' i (i + 2) = Inr True"
  by (simp add: support_cond_def and_then_True)

lemma resistance_cond_True:
  "resistance_cond ps i = Inr True \<longleftrightarrow>
     gt_at ps ''high'' i (i - 1) = Inr True \<and> gt_at ps ''high'' i (i - 2) = Inr True \<and>
     gt_at ps ''high'' i (i + 1) = Inr True \<and> gt_at ps ''high'' i (i + 2) = Inr True"
  by (simp add: resistance_cond_def and_then_True)

lemma support_not_near:
  assumes "support_cond ps i = Inr True" "support_cond ps j = Inr True" "i < j"
  shows "i + 3 \<le> j"
proof (rule ccontr)
  assume "\<not> i + 3 \<le> j"
  then consider "j = i + 1" | "j = i + 2" using assms(3) by linarith
  then show False
  proof cases
    case 1
    then have "j - 1 = i" by simp
    then show False
      using assms(1,2) 1 lt_at_asym [of ps "''low''" i j]
      by (auto simp: support_cond_True)
  next
    case 2
    then have "j - 2 = i" by simp
    then show False
      using assms(1,2) 2 lt_at_asym [of ps "''low''" i j]
      by (auto simp: support_cond_True)
  qed
qed

lemma resistance_not_near:
  assumes "resistance_cond ps i = Inr True" "resistance_cond ps j = Inr True" "i < j"
  shows "i + 3 \<le> j"
proof (rule ccontr)
  assume "\<not> i + 3 \<le> j"
  then consider "j = i + 1" | "j = i + 2" using assms(3) by linarith
  then show False
  proof cases
    case 1
    then have "j - 1 = i" by simp
    then show False
      using assms(1,2) 1 gt_at_asym [of ps "''high''" i j]
      by (auto simp: resistance_cond_True)
  next
    case 2
    then have "j - 2 = i" by simp
    then show False
      using assms(1,2) 2 gt_at_asym [of ps "''high''" i j]
      by (auto simp: resistance_cond_True)
  qed
qed

text \<open>
  Claim C9. Two distinct indices of the loop at which the support condition is true are
  at least three apart, and so are two at which the resistance condition is true, for
  any records.
\<close>

theorem flagged_indices_three_apart:
  assumes "i \<in> set (scan_range ps)" "j \<in> set (scan_range ps)" "i \<noteq> j"
  shows "(support_cond ps i = Inr True \<and> support_cond ps j = Inr True \<longrightarrow>
            i + 3 \<le> j \<or> j + 3 \<le> i) \<and>
         (resistance_cond ps i = Inr True \<and> resistance_cond ps j = Inr True \<longrightarrow>
            i + 3 \<le> j \<or> j + 3 \<le> i)"
proof -
  from assms(3) consider "i < j" | "j < i" by linarith
  then show ?thesis
  proof cases
    case 1
    then show ?thesis
      using support_not_near [of ps i j] resistance_not_near [of ps i j] by blast
  next
    case 2
    then show ?thesis
      using support_not_near [of ps j i] resistance_not_near [of ps j i] by blast
  qed
qed

theorem flagged_indices_three_apart_witness:
  "2 \<in> set (scan_range two_dips) \<and> 5 \<in> set (scan_range two_dips) \<and> (2::nat) \<noteq> 5 \<and>
   support_cond two_dips 2 = Inr True \<and> support_cond two_dips 5 = Inr True \<and>
   resistance_cond two_dips 2 = Inr True \<and> resistance_cond two_dips 5 = Inr True \<and>
   ((2::nat) + 3 \<le> 5 \<or> (5::nat) + 3 \<le> 2)"
proof -
  have r: "scan_range two_dips = [2, 3, 4, 5]"
    by (simp add: scan_range_def two_dips_def upt_rec)
  have a: "2 \<in> set (scan_range two_dips)" and b: "5 \<in> set (scan_range two_dips)"
    by (simp_all add: r)
  have c: "(2::nat) \<noteq> 5" by simp
  have s2: "support_cond two_dips 2 = Inr True"
    by (simp add: support_cond_def and_then_def lt_at_def getitem_def two_dips_def mk_point_def)
  have s5: "support_cond two_dips 5 = Inr True"
    by (simp add: support_cond_def and_then_def lt_at_def getitem_def two_dips_def mk_point_def)
  have r2: "resistance_cond two_dips 2 = Inr True"
    by (simp add: resistance_cond_def and_then_def gt_at_def getitem_def two_dips_def mk_point_def)
  have r5: "resistance_cond two_dips 5 = Inr True"
    by (simp add: resistance_cond_def and_then_def gt_at_def getitem_def two_dips_def mk_point_def)
  show ?thesis
    using flagged_indices_three_apart [OF a b c] a b s2 s5 r2 r5 by simp
qed

subsection \<open>Minimum and maximum of the levels\<close>

lemma fless_irrefl: "\<not> fless a a"
  by (cases a) auto

lemma wf_level_iff: "wf_level x \<longleftrightarrow> (\<exists>f d. x = (VFloat f, VStr d) \<and> f \<noteq> NaN)"
  by (cases x rule: wf_level.cases) auto

lemma lex_le_iff:
  "lex_le x y \<longleftrightarrow>
     (\<exists>f d g e. x = (VFloat f, VStr d) \<and> y = (VFloat g, VStr e) \<and>
        (fless f g \<or> (f = g \<and> d \<le> e)))"
  by (cases "(x, y)" rule: lex_le.cases) auto

lemma lex_lt_iff:
  "lex_lt x y \<longleftrightarrow>
     (\<exists>f d g e. x = (VFloat f, VStr d) \<and> y = (VFloat g, VStr e) \<and>
        (fless f g \<or> (f = g \<and> d < e)))"
  by (cases "(x, y)" rule: lex_lt.cases) auto

lemma level_lt_wf:
  assumes "wf_level x" "wf_level y"
  shows "level_lt x y = Inr (lex_lt x y)"
proof -
  from assms obtain f d g e where
    x: "x = (VFloat f, VStr d)" "f \<noteq> NaN" and y: "y = (VFloat g, VStr e)" "g \<noteq> NaN"
    by (auto simp: wf_level_iff)
  show ?thesis
    using x y fless_asym [of g g] by (auto simp: feq_iff)
qed

lemma level_gt_wf:
  assumes "wf_level x" "wf_level y"
  shows "level_gt x y = Inr (lex_lt y x)"
proof -
  from assms obtain f d g e where
    x: "x = (VFloat f, VStr d)" "f \<noteq> NaN" and y: "y = (VFloat g, VStr e)" "g \<noteq> NaN"
    by (auto simp: wf_level_iff)
  show ?thesis
    using x y fless_asym [of g g] by (auto simp: feq_iff)
qed

lemma lex_le_refl: "wf_level x \<Longrightarrow> lex_le x x"
  by (auto simp: wf_level_iff lex_le_iff)

lemma lex_le_trans:
  assumes "lex_le x y" "lex_le y z"
  shows "lex_le x z"
proof -
  from assms(1) obtain f d g e where
    xy: "x = (VFloat f, VStr d)" "y = (VFloat g, VStr e)" "fless f g \<or> (f = g \<and> d \<le> e)"
    unfolding lex_le_iff by blast
  from assms(2) xy(2) obtain h c where
    z: "z = (VFloat h, VStr c)" "fless g h \<or> (g = h \<and> e \<le> c)"
    unfolding lex_le_iff by blast
  have "fless f h \<or> (f = h \<and> d \<le> c)"
    using xy(3) z(2) fless_trans [of f g h] by auto
  then show ?thesis using xy(1) z(1) by simp
qed

lemma lex_lt_le: "lex_lt x y \<Longrightarrow> lex_le x y"
  unfolding lex_lt_iff lex_le_iff by force

lemma not_lex_lt_le:
  assumes "wf_level x" "wf_level y" "\<not> lex_lt x y"
  shows "lex_le y x"
proof -
  from assms(1,2) obtain f d g e where
    x: "x = (VFloat f, VStr d)" "f \<noteq> NaN" and y: "y = (VFloat g, VStr e)" "g \<noteq> NaN"
    by (auto simp: wf_level_iff)
  from assms(3) have n: "\<not> fless f g" "f = g \<longrightarrow> \<not> d < e"
    using x y by auto
  have "fless g f \<or> (g = f \<and> e \<le> d)"
    using n fless_total [OF x(2) y(2)] by auto
  then show ?thesis using x y by simp
qed

lemma min_from_wf:
  assumes "wf_level best" "\<forall>x\<in>set xs. wf_level x"
  shows "\<exists>m. min_from best xs = Inr m \<and> m \<in> set (best # xs) \<and>
             (\<forall>x\<in>set (best # xs). lex_le m x)"
  using assms
proof (induction xs arbitrary: best)
  case Nil
  then show ?case by (simp add: lex_le_refl)
next
  case (Cons x xs)
  then have wx: "wf_level x" and wxs: "\<forall>y\<in>set xs. wf_level y" by auto
  show ?case
  proof (cases "lex_lt x best")
    case True
    from Cons.IH [OF wx wxs] obtain m where
      m: "min_from x xs = Inr m" "m \<in> set (x # xs)" "\<forall>y\<in>set (x # xs). lex_le m y"
      by blast
    have "lex_le m best"
      using m(3) True lex_lt_le lex_le_trans by (metis list.set_intros(1))
    then show ?thesis
      using m True wx Cons.prems(1) by (auto simp: level_lt_wf)
  next
    case False
    from Cons.IH [OF Cons.prems(1) wxs] obtain m where
      m: "min_from best xs = Inr m" "m \<in> set (best # xs)" "\<forall>y\<in>set (best # xs). lex_le m y"
      by blast
    have "lex_le best x" using wx Cons.prems(1) False by (rule not_lex_lt_le)
    then have "lex_le m x"
      using m(3) lex_le_trans by (metis list.set_intros(1))
    then show ?thesis
      using m False wx Cons.prems(1) by (auto simp: level_lt_wf)
  qed
qed

lemma max_from_wf:
  assumes "wf_level best" "\<forall>x\<in>set xs. wf_level x"
  shows "\<exists>m. max_from best xs = Inr m \<and> m \<in> set (best # xs) \<and>
             (\<forall>x\<in>set (best # xs). lex_le x m)"
  using assms
proof (induction xs arbitrary: best)
  case Nil
  then show ?case by (simp add: lex_le_refl)
next
  case (Cons x xs)
  then have wx: "wf_level x" and wxs: "\<forall>y\<in>set xs. wf_level y" by auto
  show ?case
  proof (cases "lex_lt best x")
    case True
    from Cons.IH [OF wx wxs] obtain m where
      m: "max_from x xs = Inr m" "m \<in> set (x # xs)" "\<forall>y\<in>set (x # xs). lex_le y m"
      by blast
    have "lex_le best m"
      using m(3) True lex_lt_le lex_le_trans by (metis list.set_intros(1))
    then show ?thesis
      using m True wx Cons.prems(1) by (auto simp: level_gt_wf)
  next
    case False
    from Cons.IH [OF Cons.prems(1) wxs] obtain m where
      m: "max_from best xs = Inr m" "m \<in> set (best # xs)" "\<forall>y\<in>set (best # xs). lex_le y m"
      by blast
    have "lex_le x best" using Cons.prems(1) wx False by (rule not_lex_lt_le)
    then have "lex_le x m"
      using m(3) lex_le_trans by (metis list.set_intros(1))
    then show ?thesis
      using m False wx Cons.prems(1) by (auto simp: level_gt_wf)
  qed
qed

lemma py_min_wf:
  assumes "ls \<noteq> []" "\<forall>x\<in>set ls. wf_level x"
  shows "\<exists>m. py_min ls = Inr m \<and> m \<in> set ls \<and> (\<forall>x\<in>set ls. lex_le m x)"
proof (cases ls)
  case Nil
  with assms(1) show ?thesis by simp
next
  case (Cons a as)
  then show ?thesis using assms(2) min_from_wf [of a as] by simp
qed

lemma py_max_wf:
  assumes "ls \<noteq> []" "\<forall>x\<in>set ls. wf_level x"
  shows "\<exists>m. py_max ls = Inr m \<and> m \<in> set ls \<and> (\<forall>x\<in>set ls. lex_le x m)"
proof (cases ls)
  case Nil
  with assms(1) show ?thesis by simp
next
  case (Cons a as)
  then show ?thesis using assms(2) max_from_wf [of a as] by simp
qed

lemma is_support_not_nan: "is_support lows i \<Longrightarrow> lows ! i \<noteq> NaN"
  by (auto simp: is_support_def dest: fless_not_nan)

lemma is_resistance_not_nan: "is_resistance highs i \<Longrightarrow> highs ! i \<noteq> NaN"
  by (auto simp: is_resistance_def dest: fless_not_nan)

lemma support_levels_wf:
  "\<forall>x\<in>set (map (low_level ps) (support_points (map low_of ps))). wf_level x"
proof -
  have "wf_level (low_level ps i)" if "i \<in> set (support_points (map low_of ps))" for i
  proof -
    from that have "i < length ps" "is_support (map low_of ps) i"
      by (auto simp: support_points_def)
    then show ?thesis
      using is_support_not_nan [of "map low_of ps" i] by (simp add: low_level_def)
  qed
  then show ?thesis by auto
qed

lemma resistance_levels_wf:
  "\<forall>x\<in>set (map (high_level ps) (resistance_points (map high_of ps))). wf_level x"
proof -
  have "wf_level (high_level ps i)" if "i \<in> set (resistance_points (map high_of ps))" for i
  proof -
    from that have "i < length ps" "is_resistance (map high_of ps) i"
      by (auto simp: resistance_points_def)
    then show ?thesis
      using is_resistance_not_nan [of "map high_of ps" i] by (simp add: high_level_def)
  qed
  then show ?thesis by auto
qed

lemma lex_le_price: "lex_le m l \<Longrightarrow> py_lt (fst l) (fst m) = Inr False"
  unfolding lex_le_iff using fless_asym fless_irrefl by auto

lemma support_scan_global_wf:
  assumes "well_formed_series ps"
  shows "\<exists>ls. support_scan ps False = Inr (Levels ls) \<and>
           (if ls = [] then support_scan ps True = Inr (Global None)
            else \<exists>m. support_scan ps True = Inr (Global (Some m)) \<and> m \<in> set ls \<and>
                   (\<forall>l\<in>set ls. lex_le m l \<and> py_lt (fst l) (fst m) = Inr False))"
proof -
  let ?ls = "map (low_level ps) (support_points (map low_of ps))"
  have a: "support_scan ps False = Inr (Levels ?ls)"
    using assms by (rule support_scan_all_wf)
  have b: "support_scan ps True = Inr (Global None)" if "?ls = []"
    using assms that by (simp add: support_scan_def support_loop_wf)
  have c: "\<exists>m. support_scan ps True = Inr (Global (Some m)) \<and> m \<in> set ?ls \<and>
             (\<forall>l\<in>set ?ls. lex_le m l \<and> py_lt (fst l) (fst m) = Inr False)" if ne: "?ls \<noteq> []"
  proof -
    from py_min_wf [OF ne support_levels_wf] obtain m where
      m: "py_min ?ls = Inr m" "m \<in> set ?ls" "\<forall>x\<in>set ?ls. lex_le m x" by blast
    have "support_scan ps True = Inr (Global (Some m))"
      using assms ne m(1) by (simp add: support_scan_def support_loop_wf)
    then show ?thesis using m(2,3) lex_le_price by blast
  qed
  show ?thesis using a b c by (cases "?ls = []") auto
qed

lemma lex_le_price_max: "lex_le l m \<Longrightarrow> py_gt (fst l) (fst m) = Inr False"
  unfolding lex_le_iff using fless_asym fless_irrefl by auto

lemma resistance_scan_global_wf:
  assumes "well_formed_series ps"
  shows "\<exists>ls. resistance_scan ps False = Inr (Levels ls) \<and>
           (if ls = [] then resistance_scan ps True = Inr (Global None)
            else \<exists>m. resistance_scan ps True = Inr (Global (Some m)) \<and> m \<in> set ls \<and>
                   (\<forall>l\<in>set ls. lex_le l m \<and> py_gt (fst l) (fst m) = Inr False))"
proof -
  let ?ls = "map (high_level ps) (resistance_points (map high_of ps))"
  have a: "resistance_scan ps False = Inr (Levels ?ls)"
    using assms by (rule resistance_scan_all_wf)
  have b: "resistance_scan ps True = Inr (Global None)" if "?ls = []"
    using assms that by (simp add: resistance_scan_def resistance_loop_wf)
  have c: "\<exists>m. resistance_scan ps True = Inr (Global (Some m)) \<and> m \<in> set ?ls \<and>
             (\<forall>l\<in>set ?ls. lex_le l m \<and> py_gt (fst l) (fst m) = Inr False)" if ne: "?ls \<noteq> []"
  proof -
    from py_max_wf [OF ne resistance_levels_wf] obtain m where
      m: "py_max ?ls = Inr m" "m \<in> set ?ls" "\<forall>x\<in>set ?ls. lex_le x m" by blast
    have "resistance_scan ps True = Inr (Global (Some m))"
      using assms ne m(1) by (simp add: resistance_scan_def resistance_loop_wf)
    then show ?thesis using m(2,3) lex_le_price_max by blast
  qed
  show ?thesis using a b c by (cases "?ls = []") auto
qed

text \<open>
  Claim C3. On a series of the data model, with \<open>global_only\<close> each scan returns \<open>None\<close>
  when its list of levels is empty, and otherwise one level of that list: for support
  one that is lexicographically least on (price, timestamp), so that no level has a lower
  price; for resistance one that is lexicographically greatest, so that no level has a
  higher price.
\<close>

theorem global_only_extremum:
  assumes "well_formed_series ps"
  shows "(\<exists>ls. support_scan ps False = Inr (Levels ls) \<and>
           (if ls = [] then support_scan ps True = Inr (Global None)
            else \<exists>m. support_scan ps True = Inr (Global (Some m)) \<and> m \<in> set ls \<and>
                   (\<forall>l\<in>set ls. lex_le m l \<and> py_lt (fst l) (fst m) = Inr False))) \<and>
         (\<exists>ls. resistance_scan ps False = Inr (Levels ls) \<and>
           (if ls = [] then resistance_scan ps True = Inr (Global None)
            else \<exists>m. resistance_scan ps True = Inr (Global (Some m)) \<and> m \<in> set ls \<and>
                   (\<forall>l\<in>set ls. lex_le l m \<and> py_gt (fst l) (fst m) = Inr False)))"
  using support_scan_global_wf [OF assms] resistance_scan_global_wf [OF assms] by blast

lemma wf_tied: "well_formed_series tied_series"
  by (simp add: well_formed_series_def tied_series_def wf_point_def mk_point_def)

lemma tied_lows: "map low_of tied_series = map Finite [5, 4, 1, 4, 3, 1, 6, 7]"
  by (simp add: tied_series_def mk_point_def low_of_def)

lemma tied_highs: "map high_of tied_series = map Finite [1, 2, 5, 2, 1, 5, 2, 1]"
  by (simp add: tied_series_def mk_point_def high_of_def)

lemma tied_support_all:
  "support_scan tied_series False =
     Inr (Levels [(VFloat (Finite 1), VStr ''t5''), (VFloat (Finite 1), VStr ''t2'')])"
proof -
  have "support_points (map low_of tied_series) = [2, 5]"
    unfolding tied_lows by (simp add: support_points_def is_support_def upt_rec)
  moreover have "low_level tied_series 2 = (VFloat (Finite 1), VStr ''t5'')"
    "low_level tied_series 5 = (VFloat (Finite 1), VStr ''t2'')"
    by (simp_all add: low_level_def tied_series_def mk_point_def low_of_def time_of_def)
  ultimately show ?thesis using support_scan_all_wf [OF wf_tied] by simp
qed

lemma tied_resistance_all:
  "resistance_scan tied_series False =
     Inr (Levels [(VFloat (Finite 5), VStr ''t5''), (VFloat (Finite 5), VStr ''t2'')])"
proof -
  have "resistance_points (map high_of tied_series) = [2, 5]"
    unfolding tied_highs by (simp add: resistance_points_def is_resistance_def upt_rec)
  moreover have "high_level tied_series 2 = (VFloat (Finite 5), VStr ''t5'')"
    "high_level tied_series 5 = (VFloat (Finite 5), VStr ''t2'')"
    by (simp_all add: high_level_def tied_series_def mk_point_def high_of_def time_of_def)
  ultimately show ?thesis using resistance_scan_all_wf [OF wf_tied] by simp
qed

theorem global_only_extremum_witness:
  "well_formed_series tied_series \<and>
   support_scan tied_series True = Inr (Global (Some (VFloat (Finite 1), VStr ''t2''))) \<and>
   resistance_scan tied_series True = Inr (Global (Some (VFloat (Finite 5), VStr ''t5'')))"
proof -
  note g = global_only_extremum [OF wf_tied]
  from g [THEN conjunct1] obtain m where
    m: "support_scan tied_series True = Inr (Global (Some m))"
       "m \<in> set [(VFloat (Finite 1), VStr ''t5''), (VFloat (Finite 1), VStr ''t2'')]"
       "\<forall>l\<in>set [(VFloat (Finite 1), VStr ''t5''), (VFloat (Finite 1), VStr ''t2'')]. lex_le m l"
    unfolding tied_support_all by auto
  have "m = (VFloat (Finite 1), VStr ''t2'')"
    using m(2,3) by auto
  with m(1) have a: "support_scan tied_series True =
      Inr (Global (Some (VFloat (Finite 1), VStr ''t2'')))" by simp
  from g [THEN conjunct2] obtain n where
    n: "resistance_scan tied_series True = Inr (Global (Some n))"
       "n \<in> set [(VFloat (Finite 5), VStr ''t5''), (VFloat (Finite 5), VStr ''t2'')]"
       "\<forall>l\<in>set [(VFloat (Finite 5), VStr ''t5''), (VFloat (Finite 5), VStr ''t2'')]. lex_le l n"
    unfolding tied_resistance_all by auto
  have "n = (VFloat (Finite 5), VStr ''t5'')"
    using n(2,3) by auto
  with n(1) have b: "resistance_scan tied_series True =
      Inr (Global (Some (VFloat (Finite 5), VStr ''t5'')))" by simp
  show ?thesis using wf_tied a b by simp
qed

section \<open>Properties of the normaliser\<close>

subsection \<open>Coercion\<close>

lemma coerce_VStr:
  "coerce py (VStr s) = Inr (numeric_or_same py (VStr s))"
  by (simp add: coerce_def numeric_or_same_def split: option.splits)

lemma coerce_VFloat: "coerce py (VFloat f) = Inr (VFloat f)"
  by (simp add: coerce_def)

lemma coerce_VInt:
  "coerce py (VInt n) =
     (case float_of_int py n of Some f \<Rightarrow> Inr (VFloat f) | None \<Rightarrow> Inl OverflowError)"
  by (simp add: coerce_def split: option.splits)

lemma coerce_VNone: "coerce py VNone = Inl TypeError"
  by (simp add: coerce_def)

lemma coerce_coercible: "coercible py v \<Longrightarrow> coerce py v = Inr (numeric_or_same py v)"
  by (cases v)
     (auto simp: coercible_def coerce_VStr coerce_VFloat coerce_VInt numeric_or_same_def)

lemma coerce_Inr_iff: "(\<exists>x. coerce py v = Inr x) \<longleftrightarrow> coercible py v"
  by (cases v)
     (auto simp: coercible_def coerce_VStr coerce_VFloat coerce_VInt coerce_VNone
           split: option.splits)

lemma coerce_not_ValueError: "coerce py v = Inl e \<Longrightarrow> \<not> is_ValueError e"
  by (cases v)
     (auto simp: coerce_VStr coerce_VFloat coerce_VInt coerce_VNone split: option.splits)

lemma is_empty_value_iff: "is_empty_value v \<longleftrightarrow> v = VStr [] \<or> v = VNone"
  by (cases v) (auto simp: is_empty_value_def)

subsection \<open>The loops of the normaliser\<close>

lemma convert_items_ok:
  assumes "\<forall>(k, v)\<in>set e. k \<noteq> ''datetime'' \<longrightarrow> coercible py v"
  shows "convert_items py e =
           (map (\<lambda>(k, v). (k, if k = ''datetime'' then v else numeric_or_same py v)) e, None)"
  using assms
proof (induction e)
  case Nil
  then show ?case by simp
next
  case (Cons kv e)
  obtain k v where kv: "kv = (k, v)" by (cases kv)
  from Cons.prems have rest: "\<forall>(k, v)\<in>set e. k \<noteq> ''datetime'' \<longrightarrow> coercible py v"
    and here: "k \<noteq> ''datetime'' \<longrightarrow> coercible py v"
    using kv by auto
  show ?case
    using Cons.IH [OF rest] here kv by (simp add: coerce_coercible)
qed

lemma convert_items_error:
  "convert_items py e = (e', Some err) \<Longrightarrow> \<not> is_ValueError err"
proof (induction e arbitrary: e')
  case Nil
  then show ?case by simp
next
  case (Cons kv e)
  obtain k v where kv: "kv = (k, v)" by (cases kv)
  show ?case
    using Cons kv
    by (auto split: if_splits sum.splits prod.splits dest: coerce_not_ValueError)
qed

lemma convert_items_returns:
  "convert_items py e = (e', None) \<Longrightarrow>
     (\<forall>(k, v)\<in>set e. k \<noteq> ''datetime'' \<longrightarrow> coercible py v)"
proof (induction e arbitrary: e')
  case Nil
  then show ?case by simp
next
  case (Cons kv e)
  obtain k v where kv: "kv = (k, v)" by (cases kv)
  show ?case
    using Cons kv coerce_Inr_iff [of py v]
    by (auto split: if_splits sum.splits prod.splits)
qed

lemma convert_entries_error:
  "convert_entries py smb ts raw = (raw', Some err) \<Longrightarrow> \<not> is_ValueError err"
proof (induction raw arbitrary: raw')
  case Nil
  then show ?case by simp
next
  case (Cons e raw)
  then show ?case
    by (auto simp: convert_entry_def split: prod.splits option.splits
             dest: convert_items_error)
qed

subsection \<open>Validation\<close>

lemma check_for_empty_data_None:
  "check_for_empty_data raw = None \<longleftrightarrow>
     (\<forall>e\<in>set raw. \<forall>(k, v)\<in>set e. \<not> is_empty_value v)"
  by (induction raw) (auto simp: list_ex_iff)

lemma check_for_empty_data_Some:
  "check_for_empty_data raw = Some err \<Longrightarrow> err = ValueError ''Empty data found in the dataset.''"
  by (induction raw) (auto split: if_splits)

lemma get_processed_data_ValueError:
  "(\<exists>msg. fst (get_processed_data py self now api) = Inl (ValueError msg)) \<longleftrightarrow>
     (api = ApiReturns None \<or>
      (\<exists>raw. api = ApiReturns (Some raw) \<and>
         (raw = [] \<or> (\<exists>e\<in>set raw. \<exists>(k, v)\<in>set e. v = VStr [] \<or> v = VNone))))"
proof (cases api)
  case ApiRaises
  then show ?thesis by (simp add: get_processed_data_def fetch_data_def)
next
  case (ApiReturns r)
  show ?thesis
  proof (cases r)
    case None
    then show ?thesis using ApiReturns by (simp add: get_processed_data_def fetch_data_def)
  next
    case (Some raw)
    show ?thesis
    proof (cases "raw = []")
      case True
      then show ?thesis
        using ApiReturns Some by (simp add: get_processed_data_def fetch_data_def)
    next
      case ne: False
      show ?thesis
      proof (cases "check_for_empty_data raw")
        case None
        then have clean: "\<forall>e\<in>set raw. \<forall>(k, v)\<in>set e. \<not> is_empty_value v"
          by (simp add: check_for_empty_data_None)
        have "\<not> (\<exists>msg. fst (get_processed_data py self now api) = Inl (ValueError msg))"
        proof
          assume "\<exists>msg. fst (get_processed_data py self now api) = Inl (ValueError msg)"
          then obtain msg raw' where
            "convert_entries py (symbol self) now raw = (raw', Some (ValueError msg))"
            using ApiReturns Some ne None
            by (auto simp: get_processed_data_def fetch_data_def convert_prices_to_numeric_def
                     split: prod.splits option.splits)
          then show False using convert_entries_error by fastforce
        qed
        moreover have "\<not> (\<exists>e\<in>set raw. \<exists>(k, v)\<in>set e. v = VStr [] \<or> v = VNone)"
          using clean by (auto simp: is_empty_value_iff)
        ultimately show ?thesis using ApiReturns Some ne by simp
      next
        case (Some err)
        then have e: "err = ValueError ''Empty data found in the dataset.''"
          by (rule check_for_empty_data_Some)
        have "check_for_empty_data raw \<noteq> None" using Some by simp
        then have "\<exists>e\<in>set raw. \<exists>(k, v)\<in>set e. v = VStr [] \<or> v = VNone"
          unfolding check_for_empty_data_None by (auto simp: is_empty_value_iff)
        moreover have "fst (get_processed_data py self now api) = Inl err"
          using ApiReturns \<open>r = Some raw\<close> ne Some
          by (simp add: get_processed_data_def fetch_data_def)
        ultimately show ?thesis using ApiReturns \<open>r = Some raw\<close> e by auto
      qed
    qed
  qed
qed

lemma get_processed_data_atomic:
  assumes "fst (get_processed_data py self now api) = Inl (ValueError msg)"
  shows "snd (get_processed_data py self now api) = (case api of ApiRaises \<Rightarrow> None | ApiReturns r \<Rightarrow> r)"
proof (cases api)
  case ApiRaises
  then show ?thesis by (simp add: get_processed_data_def fetch_data_def)
next
  case (ApiReturns r)
  show ?thesis
  proof (cases r)
    case None
    then show ?thesis using ApiReturns by (simp add: get_processed_data_def fetch_data_def)
  next
    case (Some raw)
    have "\<not> is_ValueError err"
      if "convert_entries py (symbol self) now raw = (raw', Some err)" for raw' err
      using that by (rule convert_entries_error)
    then show ?thesis
      using assms ApiReturns Some
      by (auto simp: get_processed_data_def fetch_data_def convert_prices_to_numeric_def
               split: prod.splits option.splits if_splits)
  qed
qed

text \<open>
  Claim C5. \<open>get_processed_data\<close> raises a \<open>ValueError\<close> exactly when the fetch returned
  \<open>None\<close>, an empty list, or a list in which some record holds the empty string or \<open>None\<close>
  as a value, whatever the other values are (the check comes before any coercion); and
  when it does, the fetched list is as it was: no record has been changed.
\<close>

theorem validation_rejects_whole_batch:
  "((\<exists>msg. fst (get_processed_data py self now api) = Inl (ValueError msg)) \<longleftrightarrow>
      (api = ApiReturns None \<or>
       (\<exists>raw. api = ApiReturns (Some raw) \<and>
          (raw = [] \<or> (\<exists>e\<in>set raw. \<exists>(k, v)\<in>set e. v = VStr [] \<or> v = VNone))))) \<and>
   (\<forall>msg raw. api = ApiReturns (Some raw) \<and>
        fst (get_processed_data py self now api) = Inl (ValueError msg) \<longrightarrow>
        snd (get_processed_data py self now api) = Some raw)"
proof -
  have "snd (get_processed_data py self now api) = Some raw"
    if "api = ApiReturns (Some raw)"
       "fst (get_processed_data py self now api) = Inl (ValueError msg)" for msg raw
    using get_processed_data_atomic [OF that(2)] that(1) by simp
  then show ?thesis
    using get_processed_data_ValueError [of py self now api] by blast
qed

theorem validation_rejects_whole_batch_witness:
  "fst (get_processed_data sample_builtins sample_stock ''2024-01-03T10:00:00''
          (ApiReturns (Some bad_batch))) =
     Inl (ValueError ''Empty data found in the dataset.'') \<and>
   snd (get_processed_data sample_builtins sample_stock ''2024-01-03T10:00:00''
          (ApiReturns (Some bad_batch))) = Some bad_batch"
proof -
  let ?g = "get_processed_data sample_builtins sample_stock ''2024-01-03T10:00:00''
              (ApiReturns (Some bad_batch))"
  note v = validation_rejects_whole_batch
    [of sample_builtins sample_stock "''2024-01-03T10:00:00''" "ApiReturns (Some bad_batch)"]
  have e: "\<exists>e\<in>set bad_batch. \<exists>(k, v)\<in>set e. v = VStr [] \<or> v = VNone"
    by (simp add: bad_batch_def raw_point_def)
  from v [THEN conjunct1] e obtain msg where m: "fst ?g = Inl (ValueError msg)"
    by blast
  have c: "check_for_empty_data bad_batch \<noteq> None"
    unfolding check_for_empty_data_None using e by (auto simp: is_empty_value_iff)
  have "bad_batch \<noteq> []" by (simp add: bad_batch_def)
  then have "fst ?g = Inl (ValueError ''Empty data found in the dataset.'')"
    using c check_for_empty_data_Some [of bad_batch]
    by (auto simp: get_processed_data_def fetch_data_def)
  moreover have "snd ?g = Some bad_batch"
    using v [THEN conjunct2] m by blast
  ultimately show ?thesis by simp
qed

subsection \<open>The result of the normaliser\<close>

lemma update_all:
  assumes "P (k, v)" "\<forall>x\<in>set al. P x"
  shows "\<forall>x\<in>set (AList.update k v al). P x"
  using assms by (induction al) auto

lemma coercible_VStr: "coercible py (VStr s)"
  by (simp add: coercible_def)

lemma convert_entry_ok:
  assumes "\<forall>x\<in>set e. fst x \<noteq> ''datetime'' \<longrightarrow> coercible py (snd x)"
  shows "convert_entry py smb ts e = (normalised_entry py smb ts e, None)"
proof -
  let ?P = "\<lambda>x. fst x \<noteq> ''datetime'' \<longrightarrow> coercible py (snd x)"
  let ?u = "AList.update ''ticker'' (VStr smb) (AList.update ''execution_timestamp'' (VStr ts) e)"
  have 1: "\<forall>x\<in>set (AList.update ''execution_timestamp'' (VStr ts) e). ?P x"
    by (rule update_all) (simp_all add: coercible_VStr assms)
  have 2: "\<forall>x\<in>set ?u. ?P x"
    by (rule update_all) (simp_all add: coercible_VStr 1)
  have "\<forall>(k, v)\<in>set ?u. k \<noteq> ''datetime'' \<longrightarrow> coercible py v"
    using 2 by (simp add: case_prod_beta)
  then show ?thesis
    unfolding convert_entry_def normalised_entry_def by (rule convert_items_ok)
qed

lemma convert_entry_returns:
  assumes "convert_entry py smb ts e = (e', None)"
  shows "e' = normalised_entry py smb ts e"
proof -
  let ?u = "AList.update ''ticker'' (VStr smb) (AList.update ''execution_timestamp'' (VStr ts) e)"
  from assms have c: "convert_items py ?u = (e', None)" by (simp add: convert_entry_def)
  from convert_items_ok [OF convert_items_returns [OF c]] c
  show ?thesis by (simp add: normalised_entry_def)
qed

lemma convert_entries_ok:
  assumes "\<forall>e\<in>set raw. \<forall>x\<in>set e. fst x \<noteq> ''datetime'' \<longrightarrow> coercible py (snd x)"
  shows "convert_entries py smb ts raw = (map (normalised_entry py smb ts) raw, None)"
  using assms
proof (induction raw)
  case Nil
  then show ?case by simp
next
  case (Cons e raw)
  then have "convert_entry py smb ts e = (normalised_entry py smb ts e, None)"
    by (simp add: convert_entry_ok)
  then show ?case using Cons by simp
qed

lemma convert_entries_returns:
  "convert_entries py smb ts raw = (ps, None) \<Longrightarrow> ps = map (normalised_entry py smb ts) raw"
proof (induction raw arbitrary: ps)
  case Nil
  then show ?case by simp
next
  case (Cons e raw)
  then show ?case
    by (auto split: prod.splits option.splits dest: convert_entry_returns)
qed

lemma get_processed_data_ok:
  assumes "batch_ok py raw"
  shows "get_processed_data py self now (ApiReturns (Some raw)) =
           (Inr (map (normalised_entry py (symbol self) now) raw),
            Some (map (normalised_entry py (symbol self) now) raw))"
proof -
  from assms have ne: "raw \<noteq> []"
    and ok: "\<forall>e\<in>set raw. \<forall>(k, v)\<in>set e. \<not> is_empty_value v \<and> (k \<noteq> ''datetime'' \<longrightarrow> coercible py v)"
    by (auto simp: batch_ok_def entry_ok_def list_all_iff)
  have c: "check_for_empty_data raw = None"
    unfolding check_for_empty_data_None using ok by (simp add: case_prod_beta)
  have "\<forall>e\<in>set raw. \<forall>x\<in>set e. fst x \<noteq> ''datetime'' \<longrightarrow> coercible py (snd x)"
    using ok by (simp add: case_prod_beta)
  then have "convert_entries py (symbol self) now raw =
          (map (normalised_entry py (symbol self) now) raw, None)"
    by (rule convert_entries_ok)
  then show ?thesis
    using ne c
    by (simp add: get_processed_data_def fetch_data_def convert_prices_to_numeric_def)
qed

lemma get_processed_data_returns:
  assumes "fst (get_processed_data py self now (ApiReturns (Some raw))) = Inr ps"
  shows "ps = map (normalised_entry py (symbol self) now) raw \<and> raw \<noteq> []"
  using assms
  by (auto simp: get_processed_data_def fetch_data_def convert_prices_to_numeric_def
           split: if_splits option.splits prod.splits dest: convert_entries_returns)

lemma map_of_map_key:
  "map_of (map (\<lambda>(k, v). (k, f k v)) al) k = map_option (f k) (map_of al k)"
  by (induction al) auto

lemma map_of_normalised_entry:
  "map_of (normalised_entry py smb ts e) k =
     map_option (\<lambda>v. if k = ''datetime'' then v else numeric_or_same py v)
       (((map_of e)(''execution_timestamp'' \<mapsto> VStr ts, ''ticker'' \<mapsto> VStr smb)) k)"
  unfolding normalised_entry_def
  using map_of_map_key [of "\<lambda>k v. if k = ''datetime'' then v else numeric_or_same py v"]
  by (simp add: update_conv')

lemma numeric_or_same_unparsed:
  "float_of_str py s = None \<Longrightarrow> int_of_str py s = None \<Longrightarrow> numeric_or_same py (VStr s) = VStr s"
  by (simp add: numeric_or_same_def)

lemma numeric_or_same_float:
  "float_of_str py s = Some f \<Longrightarrow> numeric_or_same py (VStr s) = VFloat f"
  by (simp add: numeric_or_same_def)

lemma numeric_or_same_int:
  "float_of_str py s = None \<Longrightarrow> int_of_str py s = Some n \<Longrightarrow> numeric_or_same py (VStr s) = VInt n"
  by (simp add: numeric_or_same_def)

lemma normalised_entry_stamp:
  "map_of (normalised_entry py smb ts e) ''execution_timestamp'' = Some (numeric_or_same py (VStr ts))"
  by (simp add: map_of_normalised_entry)

lemma normalised_entry_ticker:
  "map_of (normalised_entry py smb ts e) ''ticker'' = Some (numeric_or_same py (VStr smb))"
  by (simp add: map_of_normalised_entry)

lemma normalised_entry_datetime:
  "map_of (normalised_entry py smb ts e) ''datetime'' = map_of e ''datetime''"
  by (simp add: map_of_normalised_entry option.map_ident)

lemma normalised_entry_other:
  "k \<noteq> ''datetime'' \<Longrightarrow>
   map_of (normalised_entry py smb ts e) k =
     map_option (numeric_or_same py)
       (((map_of e)(''execution_timestamp'' \<mapsto> VStr ts, ''ticker'' \<mapsto> VStr smb)) k)"
  by (simp add: map_of_normalised_entry)

text \<open>
  For a batch that passes the validation and whose values \<open>float\<close> accepts,
  \<open>get_processed_data\<close> returns the records in order, each with the execution timestamp
  and the ticker set and then every field but \<open>datetime\<close> coerced. The two fields set are
  coerced with the rest: they hold the strings assigned only when these parse neither as
  a float nor as an integer.
\<close>

lemma get_processed_data_stamps:
  assumes "batch_ok py raw"
  shows "fst (get_processed_data py self now (ApiReturns (Some raw))) =
           Inr (map (normalised_entry py (symbol self) now) raw) \<and>
         (\<forall>e\<in>set raw.
            map_of (normalised_entry py (symbol self) now e) ''execution_timestamp'' =
              Some (numeric_or_same py (VStr now)) \<and>
            map_of (normalised_entry py (symbol self) now e) ''ticker'' =
              Some (numeric_or_same py (VStr (symbol self)))) \<and>
         (float_of_str py now = None \<and> int_of_str py now = None \<longrightarrow>
            numeric_or_same py (VStr now) = VStr now) \<and>
         (float_of_str py (symbol self) = None \<and> int_of_str py (symbol self) = None \<longrightarrow>
            numeric_or_same py (VStr (symbol self)) = VStr (symbol self))"
  using get_processed_data_ok [OF assms, of self now]
  by (simp add: normalised_entry_stamp normalised_entry_ticker numeric_or_same_unparsed)

lemma good_batch_ok: "batch_ok sample_builtins good_batch"
  by (simp add: batch_ok_def entry_ok_def good_batch_def raw_point_def is_empty_value_def
      coercible_def)

lemma sample_parse:
  "float_of_str sample_builtins ''ABC'' = None" "int_of_str sample_builtins ''ABC'' = None"
  "float_of_str sample_builtins ''2024-01-03T10:00:00'' = None"
  "int_of_str sample_builtins ''2024-01-03T10:00:00'' = None"
  "float_of_str sample_builtins ''123'' = Some (Finite 123)"
  "float_of_str sample_builtins ''9'' = Some (Finite 9)"
  "float_of_str sample_builtins ''10'' = Some (Finite 10)"
  "float_of_str sample_builtins ''11'' = Some (Finite 11)"
  "float_of_str sample_builtins ''12'' = Some (Finite 12)"
  "float_of_str sample_builtins ''1000'' = Some (Finite 1000)"
  by (simp_all add: sample_builtins_def is_digit_def)

lemma good_batch_normalised:
  "map (normalised_entry sample_builtins ''ABC'' ''2024-01-03T10:00:00'') good_batch =
     [[(''datetime'', VStr ''2024-01-02''), (''open'', VFloat (Finite 10)),
       (''high'', VFloat (Finite 12)), (''low'', VFloat (Finite 10)),
       (''close'', VFloat (Finite 12)), (''volume'', VFloat (Finite 1000)),
       (''execution_timestamp'', VStr ''2024-01-03T10:00:00''), (''ticker'', VStr ''ABC'')],
      [(''datetime'', VStr ''2024-01-01''), (''open'', VFloat (Finite 9)),
       (''high'', VFloat (Finite 11)), (''low'', VFloat (Finite 9)),
       (''close'', VFloat (Finite 11)), (''volume'', VFloat (Finite 1000)),
       (''execution_timestamp'', VStr ''2024-01-03T10:00:00''), (''ticker'', VStr ''ABC'')]]"
  by (simp add: normalised_entry_def good_batch_def raw_point_def numeric_or_same_def
      sample_parse)

lemma good_batch_processed:
  "fst (get_processed_data sample_builtins sample_stock ''2024-01-03T10:00:00''
          (ApiReturns (Some good_batch))) =
     Inr [[(''datetime'', VStr ''2024-01-02''), (''open'', VFloat (Finite 10)),
           (''high'', VFloat (Finite 12)), (''low'', VFloat (Finite 10)),
           (''close'', VFloat (Finite 12)), (''volume'', VFloat (Finite 1000)),
           (''execution_timestamp'', VStr ''2024-01-03T10:00:00''), (''ticker'', VStr ''ABC'')],
          [(''datetime'', VStr ''2024-01-01''), (''open'', VFloat (Finite 9)),
           (''high'', VFloat (Finite 11)), (''low'', VFloat (Finite 9)),
           (''close'', VFloat (Finite 11)), (''volume'', VFloat (Finite 1000)),
           (''execution_timestamp'', VStr ''2024-01-03T10:00:00''), (''ticker'', VStr ''ABC'')]]"
proof -
  have sym: "symbol sample_stock = ''ABC''" by (simp add: sample_stock_def)
  show ?thesis
    using get_processed_data_ok [OF good_batch_ok, of sample_stock "''2024-01-03T10:00:00''"]
    unfolding sym good_batch_normalised by simp
qed

lemma good_batch_normalised_digits:
  "map (normalised_entry sample_builtins ''123'' ''2024-01-03T10:00:00'') good_batch =
     [[(''datetime'', VStr ''2024-01-02''), (''open'', VFloat (Finite 10)),
       (''high'', VFloat (Finite 12)), (''low'', VFloat (Finite 10)),
       (''close'', VFloat (Finite 12)), (''volume'', VFloat (Finite 1000)),
       (''execution_timestamp'', VStr ''2024-01-03T10:00:00''),
       (''ticker'', VFloat (Finite 123))],
      [(''datetime'', VStr ''2024-01-01''), (''open'', VFloat (Finite 9)),
       (''high'', VFloat (Finite 11)), (''low'', VFloat (Finite 9)),
       (''close'', VFloat (Finite 11)), (''volume'', VFloat (Finite 1000)),
       (''execution_timestamp'', VStr ''2024-01-03T10:00:00''),
       (''ticker'', VFloat (Finite 123))]]"
  by (simp add: normalised_entry_def good_batch_def raw_point_def numeric_or_same_def
      sample_parse)

text \<open>
  Claim C6. The normaliser is to attach the requested symbol to every record. The code
  assigns \<open>ticker\<close> before the loop over the items, which then coerces it with the other
  fields, although the docstring of \<open>_convert_prices_to_numeric\<close> speaks of the
  price-related fields only. For the symbol \<open>123\<close> and a fetch of two complete records,
  \<open>get_processed_data\<close> returns records whose ticker is the float 123 and not the
  requested symbol; the rest of the record is as the claim describes: every field but
  \<open>datetime\<close> coerced, and one execution timestamp shared by both records.
\<close>

theorem ticker_loses_requested_symbol:
  "symbol digit_stock = ''123'' \<and>
   fst (get_processed_data sample_builtins digit_stock ''2024-01-03T10:00:00''
          (ApiReturns (Some good_batch))) =
     Inr [[(''datetime'', VStr ''2024-01-02''), (''open'', VFloat (Finite 10)),
           (''high'', VFloat (Finite 12)), (''low'', VFloat (Finite 10)),
           (''close'', VFloat (Finite 12)), (''volume'', VFloat (Finite 1000)),
           (''execution_timestamp'', VStr ''2024-01-03T10:00:00''),
           (''ticker'', VFloat (Finite 123))],
          [(''datetime'', VStr ''2024-01-01''), (''open'', VFloat (Finite 9)),
           (''high'', VFloat (Finite 11)), (''low'', VFloat (Finite 9)),
           (''close'', VFloat (Finite 11)), (''volume'', VFloat (Finite 1000)),
           (''execution_timestamp'', VStr ''2024-01-03T10:00:00''),
           (''ticker'', VFloat (Finite 123))]]"
proof -
  have sym: "symbol digit_stock = ''123''" by (simp add: digit_stock_def)
  show ?thesis
    using get_processed_data_ok [OF good_batch_ok, of digit_stock "''2024-01-03T10:00:00''"]
    unfolding sym good_batch_normalised_digits by simp
qed

text \<open>
  Claim C10. The coercion also runs on the two fields the normaliser adds: for a batch
  that passes the validation and whose values \<open>float\<close> accepts, when the symbol parses
  as a float the ticker of every record is that float, and when it parses only as an
  integer the ticker is that integer, not the symbol string. The value under \<open>datetime\<close>
  is the fetched one; every other key holds the coerced value.
\<close>

theorem ticker_is_coerced:
  assumes "batch_ok py raw"
  shows "fst (get_processed_data py self now (ApiReturns (Some raw))) =
           Inr (map (normalised_entry py (symbol self) now) raw) \<and>
         (\<forall>e\<in>set raw.
            (\<forall>f. float_of_str py (symbol self) = Some f \<longrightarrow>
               map_of (normalised_entry py (symbol self) now e) ''ticker'' = Some (VFloat f)) \<and>
            (\<forall>n. float_of_str py (symbol self) = None \<and> int_of_str py (symbol self) = Some n \<longrightarrow>
               map_of (normalised_entry py (symbol self) now e) ''ticker'' = Some (VInt n)) \<and>
            map_of (normalised_entry py (symbol self) now e) ''datetime'' = map_of e ''datetime'' \<and>
            (\<forall>k. k \<noteq> ''datetime'' \<longrightarrow>
               map_of (normalised_entry py (symbol self) now e) k =
                 map_option (numeric_or_same py)
                   (((map_of e)(''execution_timestamp'' \<mapsto> VStr now,
                       ''ticker'' \<mapsto> VStr (symbol self))) k)))"
proof -
  have a: "fst (get_processed_data py self now (ApiReturns (Some raw))) =
           Inr (map (normalised_entry py (symbol self) now) raw)"
    using get_processed_data_ok [OF assms, of self now] by simp
  have b: "map_of (normalised_entry py (symbol self) now e) ''ticker'' = Some (VFloat f)"
    if "float_of_str py (symbol self) = Some f" for e f
    using that by (simp add: normalised_entry_ticker numeric_or_same_float)
  have c: "map_of (normalised_entry py (symbol self) now e) ''ticker'' = Some (VInt n)"
    if "float_of_str py (symbol self) = None" "int_of_str py (symbol self) = Some n" for e n
    using that by (simp add: normalised_entry_ticker numeric_or_same_int)
  show ?thesis
    using a b c normalised_entry_datetime normalised_entry_other by blast
qed

theorem ticker_is_coerced_witness:
  "batch_ok sample_builtins good_batch \<and>
   raw_point ''2024-01-02'' ''12'' ''10'' \<in> set good_batch \<and>
   float_of_str sample_builtins (symbol digit_stock) = Some (Finite 123) \<and>
   fst (get_processed_data sample_builtins digit_stock ''2024-01-03T10:00:00''
          (ApiReturns (Some good_batch))) =
     Inr (map (normalised_entry sample_builtins ''123'' ''2024-01-03T10:00:00'') good_batch) \<and>
   map_of (normalised_entry sample_builtins ''123'' ''2024-01-03T10:00:00''
             (raw_point ''2024-01-02'' ''12'' ''10'')) ''ticker'' = Some (VFloat (Finite 123)) \<and>
   map_of (normalised_entry sample_builtins ''123'' ''2024-01-03T10:00:00''
             (raw_point ''2024-01-02'' ''12'' ''10'')) ''datetime'' = Some (VStr ''2024-01-02'')"
proof -
  have sym: "symbol digit_stock = ''123''" by (simp add: digit_stock_def)
  have mem: "raw_point ''2024-01-02'' ''12'' ''10'' \<in> set good_batch"
    by (simp add: good_batch_def)
  have par: "float_of_str sample_builtins (symbol digit_stock) = Some (Finite 123)"
    unfolding sym by (rule sample_parse)
  have d: "map_of (raw_point ''2024-01-02'' ''12'' ''10'') ''datetime'' = Some (VStr ''2024-01-02'')"
    by (simp add: raw_point_def)
  note t = ticker_is_coerced [OF good_batch_ok, of digit_stock "''2024-01-03T10:00:00''"]
  note t1 = t [THEN conjunct1]
  note t2 = t [THEN conjunct2, rule_format, OF mem]
  have "map_of (normalised_entry sample_builtins ''123'' ''2024-01-03T10:00:00''
             (raw_point ''2024-01-02'' ''12'' ''10'')) ''ticker'' = Some (VFloat (Finite 123))"
    using t2 [THEN conjunct1, rule_format, OF par] unfolding sym .
  moreover have "map_of (normalised_entry sample_builtins ''123'' ''2024-01-03T10:00:00''
             (raw_point ''2024-01-02'' ''12'' ''10'')) ''datetime'' = Some (VStr ''2024-01-02'')"
    using t2 [THEN conjunct2, THEN conjunct2, THEN conjunct1] d unfolding sym by simp
  ultimately show ?thesis
    using good_batch_ok mem par t1 unfolding sym by simp
qed

section \<open>The scanner on the normalised batch\<close>

lemma numeric_raw_float: "numeric_raw py v \<Longrightarrow> \<exists>f. numeric_or_same py v = VFloat f"
  by (cases v) (auto simp: numeric_raw_def numeric_or_same_def)

lemma wf_raw_point_normalised:
  assumes "wf_raw_point py e"
  shows "wf_point (normalised_entry py smb ts e)"
proof -
  from assms obtain l h d where
    l: "map_of e ''low'' = Some l" "numeric_raw py l" and
    h: "map_of e ''high'' = Some h" "numeric_raw py h" and
    d: "map_of e ''datetime'' = Some (VStr d)"
    by (auto simp: wf_raw_point_def split: option.splits pyval.splits)
  from numeric_raw_float [OF l(2)] obtain lf where lf: "numeric_or_same py l = VFloat lf" ..
  from numeric_raw_float [OF h(2)] obtain hf where hf: "numeric_or_same py h = VFloat hf" ..
  have "map_of (normalised_entry py smb ts e) ''low'' = Some (VFloat lf)"
    using l(1) lf by (simp add: normalised_entry_other)
  moreover have "map_of (normalised_entry py smb ts e) ''high'' = Some (VFloat hf)"
    using h(1) hf by (simp add: normalised_entry_other)
  moreover have "map_of (normalised_entry py smb ts e) ''datetime'' = Some (VStr d)"
    using d by (simp add: normalised_entry_datetime)
  ultimately show ?thesis by (simp add: wf_point_def)
qed

lemma well_formed_batch_normalised:
  "well_formed_batch py raw \<Longrightarrow> well_formed_series (map (normalised_entry py smb ts) raw)"
  by (simp add: well_formed_batch_def well_formed_series_def list_all_iff
      wf_raw_point_normalised)

lemma scans_return_wf:
  assumes "well_formed_series ps"
  shows "(\<exists>ls. support_scan ps False = Inr (Levels ls)) \<and>
         (\<exists>m. support_scan ps True = Inr (Global m)) \<and>
         (\<exists>ls. resistance_scan ps False = Inr (Levels ls)) \<and>
         (\<exists>m. resistance_scan ps True = Inr (Global m))"
proof -
  from support_scan_global_wf [OF assms] obtain ls where
    s: "support_scan ps False = Inr (Levels ls)"
       "if ls = [] then support_scan ps True = Inr (Global None)
        else \<exists>m. support_scan ps True = Inr (Global (Some m)) \<and> m \<in> set ls \<and>
               (\<forall>l\<in>set ls. lex_le m l \<and> py_lt (fst l) (fst m) = Inr False)"
    by blast
  from resistance_scan_global_wf [OF assms] obtain hs where
    r: "resistance_scan ps False = Inr (Levels hs)"
       "if hs = [] then resistance_scan ps True = Inr (Global None)
        else \<exists>m. resistance_scan ps True = Inr (Global (Some m)) \<and> m \<in> set hs \<and>
               (\<forall>l\<in>set hs. lex_le l m \<and> py_gt (fst l) (fst m) = Inr False)"
    by blast
  have "\<exists>m. support_scan ps True = Inr (Global m)"
    using s(2) by (cases "ls = []") auto
  moreover have "\<exists>m. resistance_scan ps True = Inr (Global m)"
    using r(2) by (cases "hs = []") auto
  ultimately show ?thesis using s(1) r(1) by blast
qed

text \<open>
  Claim C7. When the normaliser accepts a well-formed, non-empty fetched batch, its
  output is a series of the data model, and both scans of it return in both modes: a
  list of levels without \<open>global_only\<close>, a level or \<open>None\<close> with it; so do the two methods
  called on that fetch.
\<close>

theorem scanner_never_raises_on_normalised:
  assumes "well_formed_batch py raw"
    and "fst (get_processed_data py self now (ApiReturns (Some raw))) = Inr ps"
  shows "ps \<noteq> [] \<and> well_formed_series ps \<and>
         (\<exists>ls. support_scan ps False = Inr (Levels ls) \<and>
               find_support_levels py self now (ApiReturns (Some raw)) False = Inr (Levels ls)) \<and>
         (\<exists>m. support_scan ps True = Inr (Global m) \<and>
               find_support_levels py self now (ApiReturns (Some raw)) True = Inr (Global m)) \<and>
         (\<exists>ls. resistance_scan ps False = Inr (Levels ls) \<and>
               find_resistance_levels py self now (ApiReturns (Some raw)) False = Inr (Levels ls)) \<and>
         (\<exists>m. resistance_scan ps True = Inr (Global m) \<and>
               find_resistance_levels py self now (ApiReturns (Some raw)) True = Inr (Global m))"
proof -
  from get_processed_data_returns [OF assms(2)]
  have ps: "ps = map (normalised_entry py (symbol self) now) raw" and ne: "raw \<noteq> []"
    by simp_all
  have wf: "well_formed_series ps"
    unfolding ps using assms(1) by (rule well_formed_batch_normalised)
  have f: "find_support_levels py self now (ApiReturns (Some raw)) g = support_scan ps g"
    "find_resistance_levels py self now (ApiReturns (Some raw)) g = resistance_scan ps g" for g
    using assms(2) by (simp_all add: find_support_levels_def find_resistance_levels_def)
  have "ps \<noteq> []" using ps ne by simp
  then show ?thesis
    using wf scans_return_wf [OF wf] by (simp add: f)
qed

lemma fetched_seven_wf: "well_formed_batch sample_builtins fetched_seven"
  by (simp add: well_formed_batch_def wf_raw_point_def fetched_seven_def raw_point_def
      numeric_raw_def sample_builtins_def is_digit_def)

lemma fetched_seven_ok: "batch_ok sample_builtins fetched_seven"
  by (simp add: batch_ok_def entry_ok_def fetched_seven_def raw_point_def is_empty_value_def
      coercible_def)

lemma low_of_normalised_raw_point:
  "float_of_str py l = Some f \<Longrightarrow> low_of (normalised_entry py smb ts (raw_point d h l)) = f"
  by (simp add: low_of_def normalised_entry_other raw_point_def numeric_or_same_float)

lemma high_of_normalised_raw_point:
  "float_of_str py h = Some f \<Longrightarrow> high_of (normalised_entry py smb ts (raw_point d h l)) = f"
  by (simp add: high_of_def normalised_entry_other raw_point_def numeric_or_same_float)

lemma time_of_normalised_raw_point:
  "time_of (normalised_entry py smb ts (raw_point d h l)) = d"
  by (simp add: time_of_def normalised_entry_datetime raw_point_def)

lemma sample_parse_digits:
  "float_of_str sample_builtins ''1'' = Some (Finite 1)"
  "float_of_str sample_builtins ''2'' = Some (Finite 2)"
  "float_of_str sample_builtins ''3'' = Some (Finite 3)"
  "float_of_str sample_builtins ''4'' = Some (Finite 4)"
  "float_of_str sample_builtins ''5'' = Some (Finite 5)"
  by (simp_all add: sample_builtins_def is_digit_def)

lemma seven_lows:
  "map low_of (map (normalised_entry sample_builtins smb ts) fetched_seven) =
     map Finite [5, 4, 3, 2, 3, 4, 5]"
  by (simp add: fetched_seven_def low_of_normalised_raw_point sample_parse_digits)

lemma seven_highs:
  "map high_of (map (normalised_entry sample_builtins smb ts) fetched_seven) =
     map Finite [1, 2, 3, 4, 3, 2, 1]"
  by (simp add: fetched_seven_def high_of_normalised_raw_point sample_parse_digits)

lemma seven_support:
  "support_scan (map (normalised_entry sample_builtins smb ts) fetched_seven) False =
     Inr (Levels [(VFloat (Finite 2), VStr ''d3'')])"
proof -
  let ?ps = "map (normalised_entry sample_builtins smb ts) fetched_seven"
  have wf: "well_formed_series ?ps"
    using fetched_seven_wf by (rule well_formed_batch_normalised)
  have p: "support_points (map low_of ?ps) = [3]"
    unfolding seven_lows by (simp add: support_points_def is_support_def upt_rec)
  have l: "low_level ?ps 3 = (VFloat (Finite 2), VStr ''d3'')"
    by (simp add: low_level_def fetched_seven_def low_of_normalised_raw_point
        time_of_normalised_raw_point sample_parse_digits)
  show ?thesis using support_scan_all_wf [OF wf] p l by simp
qed

lemma seven_resistance:
  "resistance_scan (map (normalised_entry sample_builtins smb ts) fetched_seven) True =
     Inr (Global (Some (VFloat (Finite 4), VStr ''d3'')))"
proof -
  let ?ps = "map (normalised_entry sample_builtins smb ts) fetched_seven"
  have wf: "well_formed_series ?ps"
    using fetched_seven_wf by (rule well_formed_batch_normalised)
  have p: "resistance_points (map high_of ?ps) = [3]"
    unfolding seven_highs by (simp add: resistance_points_def is_resistance_def upt_rec)
  have l: "high_level ?ps 3 = (VFloat (Finite 4), VStr ''d3'')"
    by (simp add: high_level_def fetched_seven_def high_of_normalised_raw_point
        time_of_normalised_raw_point sample_parse_digits)
  show ?thesis
    using resistance_loop_wf [OF wf] p l by (simp add: resistance_scan_def)
qed

theorem scanner_never_raises_on_normalised_witness:
  "well_formed_batch sample_builtins fetched_seven \<and>
   fst (get_processed_data sample_builtins sample_stock ''2024-01-03T10:00:00''
          (ApiReturns (Some fetched_seven))) =
     Inr (map (normalised_entry sample_builtins ''ABC'' ''2024-01-03T10:00:00'') fetched_seven) \<and>
   find_support_levels sample_builtins sample_stock ''2024-01-03T10:00:00''
       (ApiReturns (Some fetched_seven)) False =
     Inr (Levels [(VFloat (Finite 2), VStr ''d3'')]) \<and>
   find_resistance_levels sample_builtins sample_stock ''2024-01-03T10:00:00''
       (ApiReturns (Some fetched_seven)) True =
     Inr (Global (Some (VFloat (Finite 4), VStr ''d3'')))"
proof -
  let ?ps = "map (normalised_entry sample_builtins ''ABC'' ''2024-01-03T10:00:00'') fetched_seven"
  have sym: "symbol sample_stock = ''ABC''" by (simp add: sample_stock_def)
  have g: "fst (get_processed_data sample_builtins sample_stock ''2024-01-03T10:00:00''
                  (ApiReturns (Some fetched_seven))) = Inr ?ps"
    using get_processed_data_ok [OF fetched_seven_ok, of sample_stock "''2024-01-03T10:00:00''"]
    by (simp add: sym)
  note s = scanner_never_raises_on_normalised [OF fetched_seven_wf g]
  from s obtain ls where
    ls: "support_scan ?ps False = Inr (Levels ls)"
        "find_support_levels sample_builtins sample_stock ''2024-01-03T10:00:00''
           (ApiReturns (Some fetched_seven)) False = Inr (Levels ls)"
    by blast
  from s obtain m where
    m: "resistance_scan ?ps True = Inr (Global m)"
       "find_resistance_levels sample_builtins sample_stock ''2024-01-03T10:00:00''
          (ApiReturns (Some fetched_seven)) True = Inr (Global m)"
    by blast
  have "ls = [(VFloat (Finite 2), VStr ''d3'')]"
    using ls(1) by (simp add: seven_support)
  moreover have "m = Some (VFloat (Finite 4), VStr ''d3'')"
    using m(1) by (simp add: seven_resistance)
  ultimately show ?thesis
    using fetched_seven_wf g ls(2) m(2) by simp
qed

text \<open>
  Without numbers under \<open>low\<close> the comparison itself raises: a record whose \<open>low\<close> is a
  string \<open>float\<close> rejects passes the validation and the coercion unchanged, and the
  scan then compares a float with a string.
\<close>

lemma scan_raises_on_unparsed_low:
  "find_support_levels sample_builtins sample_stock ''2024-01-03T10:00:00''
     (ApiReturns (Some
        [raw_point ''d4'' ''1'' ''3'', raw_point ''d3'' ''1'' ''2'', raw_point ''d2'' ''1'' ''1'',
         raw_point ''d1'' ''1'' ''n/a'', raw_point ''d0'' ''1'' ''5''])) False = Inl TypeError"
proof -
  let ?raw = "[raw_point ''d4'' ''1'' ''3'', raw_point ''d3'' ''1'' ''2'',
      raw_point ''d2'' ''1'' ''1'', raw_point ''d1'' ''1'' ''n/a'', raw_point ''d0'' ''1'' ''5'']"
  let ?ps = "map (normalised_entry sample_builtins ''ABC'' ''2024-01-03T10:00:00'') ?raw"
  have ok: "batch_ok sample_builtins ?raw"
    by (simp add: batch_ok_def entry_ok_def raw_point_def is_empty_value_def coercible_def)
  have sym: "symbol sample_stock = ''ABC''" by (simp add: sample_stock_def)
  have g: "fst (get_processed_data sample_builtins sample_stock ''2024-01-03T10:00:00''
                  (ApiReturns (Some ?raw))) = Inr ?ps"
    using get_processed_data_ok [OF ok, of sample_stock "''2024-01-03T10:00:00''"]
    by (simp add: sym)
  have na: "float_of_str sample_builtins ''n/a'' = None" "int_of_str sample_builtins ''n/a'' = None"
    by (simp_all add: sample_builtins_def is_digit_def)
  have low: "map_of (normalised_entry sample_builtins ''ABC'' ''2024-01-03T10:00:00''
               (raw_point d h l)) ''low'' = Some (numeric_or_same sample_builtins (VStr l))" for d h l
    by (simp add: normalised_entry_other raw_point_def)
  have c: "support_cond ?ps 2 = Inl TypeError"
    by (simp add: support_cond_def and_then_def lt_at_def getitem_def low numeric_or_same_def
        sample_parse_digits na)
  have "support_loop ?ps = Inl TypeError"
    using c by (simp add: support_loop_def scan_range_def upt_rec support_step_def)
  then show ?thesis
    using g by (simp add: find_support_levels_def support_scan_def)
qed

subsection \<open>The scan reads and does not write\<close>

lemma support_step_frame:
  "support_step i s = Inr s' \<Longrightarrow> processed_data s' = processed_data s"
  by (auto simp: support_step_def split: sum.splits if_splits)

lemma resistance_step_frame:
  "resistance_step i s = Inr s' \<Longrightarrow> processed_data s' = processed_data s"
  by (auto simp: resistance_step_def split: sum.splits if_splits)

lemma for_each_frame:
  assumes "\<And>i s s'. body i s = Inr s' \<Longrightarrow> processed_data s' = processed_data s"
  shows "for_each body js s = Inr s' \<Longrightarrow> processed_data s' = processed_data s"
proof (induction js arbitrary: s)
  case Nil
  then show ?case by simp
next
  case (Cons j js)
  from Cons.prems obtain s1 where
    s1: "body j s = Inr s1" "for_each body js s1 = Inr s'"
    by (auto split: sum.splits)
  from Cons.IH [OF s1(2)] assms [OF s1(1)] show ?case by simp
qed

text \<open>
  Claim C8. The scan has no effect on the series: when a loop ends, \<open>processed_data\<close> is
  the list it started with, every record as it was; and what the two methods return is
  determined by the processed series and the mode alone, whatever fetch, symbol, clock
  and builtins produced that series.
\<close>

theorem scan_is_pure:
  "(\<forall>s. support_loop ps = Inr s \<longrightarrow> processed_data s = ps) \<and>
   (\<forall>s. resistance_loop ps = Inr s \<longrightarrow> processed_data s = ps) \<and>
   (fst (get_processed_data py self now api) = Inr ps \<and>
    fst (get_processed_data py' self' now' api') = Inr ps \<longrightarrow>
      find_support_levels py self now api g = find_support_levels py' self' now' api' g \<and>
      find_resistance_levels py self now api g = find_resistance_levels py' self' now' api' g)"
proof -
  have a: "processed_data s = ps" if "support_loop ps = Inr s" for s
    using for_each_frame [of support_step "scan_range ps", OF support_step_frame] that
    unfolding support_loop_def by fastforce
  have b: "processed_data s = ps" if "resistance_loop ps = Inr s" for s
    using for_each_frame [of resistance_step "scan_range ps", OF resistance_step_frame] that
    unfolding resistance_loop_def by fastforce
  show ?thesis
    using a b by (simp add: find_support_levels_def find_resistance_levels_def)
qed

theorem scan_is_pure_witness:
  "(\<exists>s. support_loop example_series = Inr s \<and> processed_data s = example_series) \<and>
   fst (get_processed_data sample_builtins sample_stock ''2024-01-03T10:00:00''
          (ApiReturns (Some fetched_seven))) =
     Inr (map (normalised_entry sample_builtins ''ABC'' ''2024-01-03T10:00:00'') fetched_seven) \<and>
   fst (get_processed_data sample_builtins other_stock ''2024-01-03T10:00:00''
          (ApiReturns (Some fetched_seven))) =
     Inr (map (normalised_entry sample_builtins ''ABC'' ''2024-01-03T10:00:00'') fetched_seven) \<and>
   find_support_levels sample_builtins sample_stock ''2024-01-03T10:00:00''
       (ApiReturns (Some fetched_seven)) True =
     find_support_levels sample_builtins other_stock ''2024-01-03T10:00:00''
       (ApiReturns (Some fetched_seven)) True"
proof -
  let ?ps = "map (normalised_entry sample_builtins ''ABC'' ''2024-01-03T10:00:00'') fetched_seven"
  have g1: "fst (get_processed_data sample_builtins sample_stock ''2024-01-03T10:00:00''
                   (ApiReturns (Some fetched_seven))) = Inr ?ps"
    using get_processed_data_ok [OF fetched_seven_ok, of sample_stock "''2024-01-03T10:00:00''"]
    by (simp add: sample_stock_def)
  have g2: "fst (get_processed_data sample_builtins other_stock ''2024-01-03T10:00:00''
                   (ApiReturns (Some fetched_seven))) = Inr ?ps"
    using get_processed_data_ok [OF fetched_seven_ok, of other_stock "''2024-01-03T10:00:00''"]
    by (simp add: other_stock_def)
  obtain s where s: "support_loop example_series = Inr s"
    using support_loop_wf [OF wf_example] by blast
  have "processed_data s = example_series"
    using scan_is_pure [of example_series, THEN conjunct1] s by blast
  then have a: "\<exists>s. support_loop example_series = Inr s \<and> processed_data s = example_series"
    using s by blast
  have "find_support_levels sample_builtins sample_stock ''2024-01-03T10:00:00''
          (ApiReturns (Some fetched_seven)) True =
        find_support_levels sample_builtins other_stock ''2024-01-03T10:00:00''
          (ApiReturns (Some fetched_seven)) True"
    using scan_is_pure [of ?ps sample_builtins sample_stock "''2024-01-03T10:00:00''"
        "ApiReturns (Some fetched_seven)" sample_builtins other_stock "''2024-01-03T10:00:00''"
        "ApiReturns (Some fetched_seven)" True, THEN conjunct2, THEN conjunct2] g1 g2
    by blast
  then show ?thesis using a g1 g2 by blast
qed

end
